theory Spec2Isabelle
  imports Main "HOL-Library.Word"
begin

unbundle bit_operations_syntax

section \<open>Go values\<close>

text \<open>
  Go's \<open>int\<close> and \<open>int64\<close> are 64-bit two's complement integers: addition,
  multiplication and shifts wrap around, comparisons are signed. A Go \<open>string\<close> is a
  sequence of bytes, here a \<open>char list\<close>. An \<open>error\<close> value is kept as its message.
\<close>

type_synonym int64 = "64 word"
type_synonym error = string

text \<open>
  A function that can panic returns \<open>Panic\<close> in place of its value; a panic that nobody
  recovers ends the whole process, so every caller passes it on.
\<close>

datatype 'a go = Panic | Return 'a

text \<open>\<open>xs[i]\<close> on a slice: a run-time panic when the index is out of range.\<close>

definition index :: "'a list \<Rightarrow> nat \<Rightarrow> 'a go" where
  "index xs i = (if i < length xs then Return (xs ! i) else Panic)"

section \<open>Package strings\<close>

text \<open>
  \<open>strings.Split(s, sep)\<close> for a separator of one byte, the only use the program makes
  of it: the pieces of \<open>s\<close> between the occurrences of the separator, one more piece
  than there are separators, so that the empty string yields one empty piece.
\<close>

fun Split :: "string \<Rightarrow> char \<Rightarrow> string list" where
  "Split [] sep = [[]]"
| "Split (c # cs) sep =
     (if c = sep then [] # Split cs sep
      else (c # hd (Split cs sep)) # tl (Split cs sep))"

text \<open>
  \<open>strings.ToLower\<close>. On a string of ASCII bytes only, the library maps the bytes
  \<open>A\<close> to \<open>Z\<close> to \<open>a\<close> to \<open>z\<close> and keeps every other byte. On any other string it maps each
  rune through the Unicode tables; that mapping is the parameter \<open>U\<close>.
\<close>

definition isASCII :: "char \<Rightarrow> bool" where
  "isASCII c = ((of_char c :: nat) < 128)"

definition lowerASCII :: "char \<Rightarrow> char" where
  "lowerASCII c =
     (if (65::nat) \<le> of_char c \<and> of_char c \<le> (90::nat)
      then char_of (of_char c + (32::nat)) else c)"

definition ToLower :: "(string \<Rightarrow> string) \<Rightarrow> string \<Rightarrow> string" where
  "ToLower U s = (if list_all isASCII s then map lowerASCII s else U s)"

section \<open>Table names\<close>

text \<open>
  \<open>safeTableName\<close> of the concurrent program: the first two pieces of the symbol,
  lower-cased and joined by an underscore. The second index panics when the symbol
  has a single piece.
\<close>

definition safeTableName :: "(string \<Rightarrow> string) \<Rightarrow> string \<Rightarrow> string go" where
  "safeTableName U symbol =
     (case index (Split symbol CHR ''.'') 0 of
        Panic \<Rightarrow> Panic
      | Return base \<Rightarrow>
          (case index (Split symbol CHR ''.'') 1 of
             Panic \<Rightarrow> Panic
           | Return region \<Rightarrow>
               Return (ToLower U base @ ''_'' @ ToLower U region)))"

text \<open>
  The sequential program derives the name inside \<open>EnsureTable\<close> and
  \<open>InsertCandlesticks\<close>, in both by the same two lines: the first piece, lower-cased.
\<close>

definition tableName_seq :: "(string \<Rightarrow> string) \<Rightarrow> string \<Rightarrow> string go" where
  "tableName_seq U symbol =
     (case index (Split symbol CHR ''.'') 0 of
        Panic \<Rightarrow> Panic
      | Return tableName \<Rightarrow> Return (ToLower U tableName))"

section \<open>Data model\<close>

text \<open>
  \<open>time.Unix(sec, nsec)\<close> is kept as the pair of its arguments: the instant that many
  seconds and nanoseconds after the epoch. A job's date is such an instant too.
\<close>

datatype Time = Unix int64 int64

text \<open>
  The prices of the program are \<open>float64\<close>, those of the quote service are decimals
  behind pointers (\<open>nil\<close> when absent). Neither is computed with: \<open>'f\<close> is the type of
  floats, with its zero, \<open>'d\<close> the type of decimals, and the conversion
  \<open>InexactFloat64\<close> between them is a parameter \<open>F\<close> of the functions below.
\<close>

record 'f Candlestick =
  Symbol :: string
  Timestamp :: Time
  Open :: 'f
  Close :: 'f
  High :: 'f
  Low :: 'f
  Volume :: int64
  Turnover :: 'f

text \<open>A point as the quote service returns it (\<open>quote.Candlestick\<close>).\<close>

record 'd RawCandlestick =
  qClose :: "'d option"
  qOpen :: "'d option"
  qLow :: "'d option"
  qHigh :: "'d option"
  qVolume :: int64
  qTurnover :: "'d option"
  qTimestamp :: int64

record job =
  symbol :: string
  date :: Time

record RetryConfig =
  MaxAttempts :: int64
  BaseDelayMS :: int64
  MaxDelayMS :: int64

section \<open>The relational store\<close>

text \<open>
  A table is the list of its rows, in insertion order; the database maps the names of
  the tables that exist to their rows. The column \<open>timestamp\<close> is the primary key.
\<close>

record 'f row =
  col_timestamp :: Time
  col_open :: 'f
  col_close :: 'f
  col_high :: 'f
  col_low :: 'f
  col_volume :: int64
  col_turnover :: 'f

type_synonym 'f database = "string \<rightharpoonup> 'f row list"

text \<open>
  What the store does beyond the meaning of its statements is not in the program: a
  statement can fail (a lost connection, a constraint the row violates). These failures
  are parameters: for each kind of statement, the error it ends with, if any.
\<close>

record 'f store =
  create_err :: "string \<Rightarrow> error option"
  prepare_err :: "string \<Rightarrow> error option"
  exists_err :: "string \<Rightarrow> Time \<Rightarrow> error option"
  exec_err :: "string \<Rightarrow> 'f row \<Rightarrow> error option"

text \<open>\<open>CREATE TABLE IF NOT EXISTS t (...)\<close>\<close>

definition create_table_if_not_exists :: "string \<Rightarrow> 'f database \<Rightarrow> 'f database" where
  "create_table_if_not_exists t db =
     (case db t of None \<Rightarrow> db(t \<mapsto> []) | Some rows \<Rightarrow> db)"

text \<open>\<open>SELECT EXISTS(SELECT 1 FROM t WHERE timestamp = $1)\<close>\<close>

definition select_exists :: "string \<Rightarrow> Time \<Rightarrow> 'f database \<Rightarrow> bool" where
  "select_exists t ts db =
     (case db t of None \<Rightarrow> False | Some rows \<Rightarrow> ts \<in> set (map col_timestamp rows))"

text \<open>\<open>INSERT INTO t (...) VALUES (...) ON CONFLICT (timestamp) DO NOTHING\<close>\<close>

definition insert_on_conflict_do_nothing ::
  "string \<Rightarrow> 'f row \<Rightarrow> 'f database \<Rightarrow> 'f database" where
  "insert_on_conflict_do_nothing t r db =
     (case db t of
        None \<Rightarrow> db
      | Some rows \<Rightarrow>
          if col_timestamp r \<in> set (map col_timestamp rows) then db
          else db(t \<mapsto> rows @ [r]))"

text \<open>
  \<open>db.Prepare\<close>: the server parses the statement, and refuses one that names a table
  that does not exist.
\<close>

definition Prepare :: "'f store \<Rightarrow> 'f database \<Rightarrow> string \<Rightarrow> error option" where
  "Prepare st db t =
     (case db t of
        None \<Rightarrow> Some ''relation does not exist''
      | Some rows \<Rightarrow> prepare_err st t)"

text \<open>The seven values an insert statement is executed with.\<close>

definition row_of :: "'f Candlestick \<Rightarrow> 'f row" where
  "row_of c =
     \<lparr>col_timestamp = Timestamp c, col_open = Open c, col_close = Close c,
      col_high = High c, col_low = Low c, col_volume = Volume c,
      col_turnover = Turnover c\<rparr>"

section \<open>The persistence writer of the concurrent program\<close>

text \<open>
  \<open>EnsureTable\<close> returns the error of the statement, and the database after it.
\<close>

definition EnsureTable ::
  "'f store \<Rightarrow> (string \<Rightarrow> string) \<Rightarrow> 'f database \<Rightarrow> string
     \<Rightarrow> (error option \<times> 'f database) go" where
  "EnsureTable st U db symb =
     (case safeTableName U symb of
        Panic \<Rightarrow> Panic
      | Return tableName \<Rightarrow>
          (case create_err st tableName of
             Some err \<Rightarrow> Return (Some err, db)
           | None \<Rightarrow> Return (None, create_table_if_not_exists tableName db)))"

text \<open>
  The loop of \<open>InsertCandlesticks\<close> over the records. It carries the database and the
  lines written to the log, one for each insert that failed.
\<close>

fun insert_loop ::
  "'f store \<Rightarrow> string \<Rightarrow> 'f Candlestick list \<Rightarrow> 'f database \<times> error list
     \<Rightarrow> 'f database \<times> error list" where
  "insert_loop st t [] (db, logged) = (db, logged)"
| "insert_loop st t (c # cs) (db, logged) =
     (case exec_err st t (row_of c) of
        Some err \<Rightarrow> insert_loop st t cs (db, logged @ [err])
      | None \<Rightarrow> insert_loop st t cs (insert_on_conflict_do_nothing t (row_of c) db, logged))"

text \<open>
  \<open>InsertCandlesticks\<close> returns its error, the database after it and the lines it
  logged.
\<close>

definition InsertCandlesticks ::
  "'f store \<Rightarrow> (string \<Rightarrow> string) \<Rightarrow> 'f database \<Rightarrow> string \<Rightarrow> 'f Candlestick list
     \<Rightarrow> (error option \<times> 'f database \<times> error list) go" where
  "InsertCandlesticks st U db symb candlesticks =
     (case safeTableName U symb of
        Panic \<Rightarrow> Panic
      | Return tableName \<Rightarrow>
          (case Prepare st db tableName of
             Some err \<Rightarrow> Return (Some err, db, [])
           | None \<Rightarrow>
               (case insert_loop st tableName candlesticks (db, []) of
                  (db', logged) \<Rightarrow> Return (None, db', logged))))"

section \<open>The persistence writer of the sequential program\<close>

definition EnsureTable_seq ::
  "'f store \<Rightarrow> (string \<Rightarrow> string) \<Rightarrow> 'f database \<Rightarrow> string
     \<Rightarrow> (error option \<times> 'f database) go" where
  "EnsureTable_seq st U db symb =
     (case tableName_seq U symb of
        Panic \<Rightarrow> Panic
      | Return tableName \<Rightarrow>
          (case create_err st tableName of
             Some err \<Rightarrow> Return (Some err, db)
           | None \<Rightarrow> Return (None, create_table_if_not_exists tableName db)))"

text \<open>
  Its loop asks the store whether the timestamp exists before it inserts, and goes to
  the next record when the question fails or the answer is yes.
\<close>

fun insert_loop_seq ::
  "'f store \<Rightarrow> string \<Rightarrow> 'f Candlestick list \<Rightarrow> 'f database \<times> error list
     \<Rightarrow> 'f database \<times> error list" where
  "insert_loop_seq st t [] (db, logged) = (db, logged)"
| "insert_loop_seq st t (c # cs) (db, logged) =
     (case exists_err st t (Timestamp c) of
        Some err \<Rightarrow> insert_loop_seq st t cs (db, logged @ [err])
      | None \<Rightarrow>
          if select_exists t (Timestamp c) db then insert_loop_seq st t cs (db, logged)
          else
            (case exec_err st t (row_of c) of
               Some err \<Rightarrow> insert_loop_seq st t cs (db, logged @ [err])
             | None \<Rightarrow>
                 insert_loop_seq st t cs
                   (insert_on_conflict_do_nothing t (row_of c) db, logged)))"

text \<open>
  \<open>InsertCandlesticks\<close> of the sequential program prepares two statements on the
  table, the question and the insert; whether a statement can be prepared is taken to
  depend on the table alone.
\<close>

definition InsertCandlesticks_seq ::
  "'f store \<Rightarrow> (string \<Rightarrow> string) \<Rightarrow> 'f database \<Rightarrow> string \<Rightarrow> 'f Candlestick list
     \<Rightarrow> (error option \<times> 'f database \<times> error list) go" where
  "InsertCandlesticks_seq st U db symb candlesticks =
     (case tableName_seq U symb of
        Panic \<Rightarrow> Panic
      | Return tableName \<Rightarrow>
          (case Prepare st db tableName of
             Some err \<Rightarrow> Return (Some err, db, [])
           | None \<Rightarrow>
               (case Prepare st db tableName of
                  Some err \<Rightarrow> Return (Some err, db, [])
                | None \<Rightarrow>
                    (case insert_loop_seq st tableName candlesticks (db, []) of
                       (db', logged) \<Rightarrow> Return (None, db', logged)))))"

section \<open>The transform stage\<close>

text \<open>
  The loop of the worker over the points of a successful fetch: a point without open,
  close, high or low is passed over, the others are appended to \<open>records\<close>.
\<close>

fun transform_loop ::
  "('d \<Rightarrow> 'f::zero) \<Rightarrow> string \<Rightarrow> 'd RawCandlestick list \<Rightarrow> 'f Candlestick list
     \<Rightarrow> 'f Candlestick list" where
  "transform_loop F symb [] records = records"
| "transform_loop F symb (c # cs) records =
     (if qOpen c = None \<or> qClose c = None \<or> qHigh c = None \<or> qLow c = None
      then transform_loop F symb cs records
      else
        (let turnover = (case qTurnover c of None \<Rightarrow> 0 | Some t \<Rightarrow> F t)
         in transform_loop F symb cs
              (records @
               [\<lparr>Symbol = symb, Timestamp = Unix (qTimestamp c) 0,
                 Open = F (the (qOpen c)), Close = F (the (qClose c)),
                 High = F (the (qHigh c)), Low = F (the (qLow c)),
                 Volume = qVolume c, Turnover = turnover\<rparr>])))"

definition transform ::
  "('d \<Rightarrow> 'f::zero) \<Rightarrow> string \<Rightarrow> 'd RawCandlestick list \<Rightarrow> 'f Candlestick list" where
  "transform F symb candlesticks = transform_loop F symb candlesticks []"

section \<open>The task set\<close>

text \<open>
  A buffered channel before any receiver runs: its capacity and the values sent so far.
  A send to a full channel blocks; with no other goroutine running it blocks for
  ever, which is \<open>None\<close>. The lengths of the two slices are natural numbers; their
  product is taken to be in the range of \<open>int\<close>.
\<close>

record 'a chan =
  capacity :: nat
  buffer :: "'a list"

definition make_chan :: "nat \<Rightarrow> 'a chan" where
  "make_chan n = \<lparr>capacity = n, buffer = []\<rparr>"

definition send :: "'a \<Rightarrow> 'a chan \<Rightarrow> 'a chan option" where
  "send x ch =
     (if length (buffer ch) < capacity ch then Some (ch\<lparr>buffer := buffer ch @ [x]\<rparr>)
      else None)"

text \<open>The inner and the outer loop that fill the queue.\<close>

fun enqueue_dates :: "string \<Rightarrow> Time list \<Rightarrow> job chan \<Rightarrow> job chan option" where
  "enqueue_dates symb [] ch = Some ch"
| "enqueue_dates symb (d # ds) ch =
     (case send \<lparr>symbol = symb, date = d\<rparr> ch of
        None \<Rightarrow> None
      | Some ch' \<Rightarrow> enqueue_dates symb ds ch')"

fun enqueue_symbols :: "string list \<Rightarrow> Time list \<Rightarrow> job chan \<Rightarrow> job chan option" where
  "enqueue_symbols [] dates ch = Some ch"
| "enqueue_symbols (symb # rest) dates ch =
     (case enqueue_dates symb dates ch of
        None \<Rightarrow> None
      | Some ch' \<Rightarrow> enqueue_symbols rest dates ch')"

definition build_jobs :: "string list \<Rightarrow> Time list \<Rightarrow> job chan option" where
  "build_jobs symbols dates =
     (let totalTasks = length symbols * length dates
      in enqueue_symbols symbols dates (make_chan totalTasks))"

section \<open>The retry policy\<close>

definition retryCfg :: RetryConfig where
  "retryCfg = \<lparr>MaxAttempts = 3, BaseDelayMS = 500, MaxDelayMS = 2000\<rparr>"

text \<open>\<open>time.Millisecond\<close>, in the nanoseconds a \<open>time.Duration\<close> counts.\<close>

definition Millisecond :: int64 where
  "Millisecond = 1000000"

text \<open>
  \<open>x << n\<close> with a signed count: a panic when the count is negative, all bits shifted
  out when it is 64 or more.
\<close>

definition shift_left :: "int64 \<Rightarrow> int64 \<Rightarrow> int64 go" where
  "shift_left x n = (if n <s 0 then Panic else Return (push_bit (unat n) x))"

text \<open>The delay in milliseconds after the failed attempt \<open>attempt\<close>.\<close>

definition backoff_base :: "RetryConfig \<Rightarrow> int64 \<Rightarrow> int64 go" where
  "backoff_base cfg attempt =
     (case shift_left 1 (attempt - 1) of
        Panic \<Rightarrow> Panic
      | Return p \<Rightarrow>
          (let base = BaseDelayMS cfg * p
           in Return (if MaxDelayMS cfg <s base then MaxDelayMS cfg else base)))"

section \<open>The worker\<close>

text \<open>
  What a run does to the outside, in order: the ticks taken from the limiter, the calls
  of the quote service, the sleeps, and the lines printed (without the worker's number,
  the elapsed times, and the delay of the retry line, which the sleep that follows
  carries).
\<close>

datatype event =
    Admit
  | Progress int64 job
  | Fetch job int64
  | Retry int64 error
  | Sleep int64
  | Failed error
  | InsertFailed error
  | DbInsertFailed error
  | Done nat
  | CreateFailed error

text \<open>
  The state the workers share: the database, the three counters, and the trace. The
  quote service is a parameter \<open>remote\<close>: the answer to the \<open>n\<close>-th call of the run, for
  the job it is made for; \<open>calls\<close> counts the calls made.
\<close>

record 'f state =
  database :: "'f database"
  calls :: nat
  currentTask :: int64
  successCount :: int64
  failCount :: int64
  trace :: "event list"

text \<open>The attempts of one job: the loop \<open>for attempt := 1; attempt <= MaxAttempts; attempt++\<close>.\<close>

function retry_loop ::
  "(nat \<Rightarrow> job \<Rightarrow> error + 'd RawCandlestick list) \<Rightarrow> 'f store \<Rightarrow> (string \<Rightarrow> string)
     \<Rightarrow> ('d \<Rightarrow> 'f::zero) \<Rightarrow> RetryConfig \<Rightarrow> job \<Rightarrow> int64 \<Rightarrow> 'f state \<Rightarrow> 'f state go" where
  "retry_loop remote st U F cfg j attempt s =
     (if attempt \<le>s MaxAttempts cfg then
        (let s1 = s\<lparr>calls := calls s + 1, trace := trace s @ [Fetch j attempt]\<rparr>
         in case remote (calls s) j of
              Inl err \<Rightarrow>
                if attempt <s MaxAttempts cfg then
                  (case backoff_base cfg attempt of
                     Panic \<Rightarrow> Panic
                   | Return base \<Rightarrow>
                       retry_loop remote st U F cfg j (attempt + 1)
                         (s1\<lparr>trace := trace s1 @
                               [Retry attempt err, Sleep (base * Millisecond)]\<rparr>))
                else
                  Return (s1\<lparr>failCount := failCount s1 + 1,
                              trace := trace s1 @ [Failed err]\<rparr>)
            | Inr candlesticks \<Rightarrow>
                (let records = transform F (symbol j) candlesticks
                 in case InsertCandlesticks st U (database s1) (symbol j) records of
                      Panic \<Rightarrow> Panic
                    | Return (Some err, db', logged) \<Rightarrow>
                        Return (s1\<lparr>database := db', failCount := failCount s1 + 1,
                                    trace := trace s1 @ map InsertFailed logged @
                                      [DbInsertFailed err]\<rparr>)
                    | Return (None, db', logged) \<Rightarrow>
                        Return (s1\<lparr>database := db', successCount := successCount s1 + 1,
                                    trace := trace s1 @ map InsertFailed logged @
                                      [Done (length records)]\<rparr>)))
      else Return s)"
  by pat_completeness auto

termination retry_loop
proof (relation "measure (\<lambda>(remote, st, U, F, cfg, j, attempt, s).
         nat (sint (MaxAttempts cfg) - sint attempt))", goal_cases)
  case 1
  show ?case by simp
next
  case (2 remote st U F cfg j attempt s s1 err base)
  have less: "sint attempt < sint (MaxAttempts cfg)"
    using 2 by (simp add: word_sless_alt)
  have "sint (MaxAttempts cfg) < 2 ^ 63"
    using sint_lt [of "MaxAttempts cfg"] by simp
  moreover have "- (2 ^ 63) \<le> sint attempt"
    using sint_ge [of attempt] by simp
  ultimately have "- (2 ^ 63) \<le> sint attempt + 1 \<and> sint attempt + 1 < 2 ^ 63"
    using less by simp
  then have "sint (attempt + 1) = sint attempt + 1"
    by (simp add: sint_word_ariths signed_take_bit_int_eq_self)
  then show ?case using less by simp
qed

declare retry_loop.simps [simp del]

text \<open>
  One job, as the body of the worker's \<open>for j := range jobs\<close> runs it: a tick of the
  limiter, the progress line, then the attempts.
\<close>

definition process_job ::
  "(nat \<Rightarrow> job \<Rightarrow> error + 'd RawCandlestick list) \<Rightarrow> 'f store \<Rightarrow> (string \<Rightarrow> string)
     \<Rightarrow> ('d \<Rightarrow> 'f::zero) \<Rightarrow> RetryConfig \<Rightarrow> job \<Rightarrow> 'f state \<Rightarrow> 'f state go" where
  "process_job remote st U F cfg j s =
     (let cur = currentTask s + 1;
          s0 = s\<lparr>currentTask := cur, trace := trace s @ [Admit, Progress cur j]\<rparr>
      in retry_loop remote st U F cfg j 1 s0)"

text \<open>
  A worker takes jobs from the queue until it is empty. The pool is followed job by
  job, in the order of the queue: the counters are only ever added to, atomically, so
  their final values do not depend on how the workers interleave.
\<close>

fun worker ::
  "(nat \<Rightarrow> job \<Rightarrow> error + 'd RawCandlestick list) \<Rightarrow> 'f store \<Rightarrow> (string \<Rightarrow> string)
     \<Rightarrow> ('d \<Rightarrow> 'f::zero) \<Rightarrow> RetryConfig \<Rightarrow> job list \<Rightarrow> 'f state \<Rightarrow> 'f state go" where
  "worker remote st U F cfg [] s = Return s"
| "worker remote st U F cfg (j # js) s =
     (case process_job remote st U F cfg j s of
        Panic \<Rightarrow> Panic
      | Return s' \<Rightarrow> worker remote st U F cfg js s')"

section \<open>The concurrent program\<close>

text \<open>The loop of \<open>main\<close> that creates the tables before any job runs.\<close>

fun ensure_tables ::
  "'f store \<Rightarrow> (string \<Rightarrow> string) \<Rightarrow> string list \<Rightarrow> 'f state \<Rightarrow> 'f state go" where
  "ensure_tables st U [] s = Return s"
| "ensure_tables st U (symb # rest) s =
     (case EnsureTable st U (database s) symb of
        Panic \<Rightarrow> Panic
      | Return (Some err, db') \<Rightarrow>
          ensure_tables st U rest (s\<lparr>database := db', trace := trace s @ [CreateFailed err]\<rparr>)
      | Return (None, db') \<Rightarrow> ensure_tables st U rest (s\<lparr>database := db'\<rparr>))"

definition init :: "'f database \<Rightarrow> 'f state" where
  "init db0 =
     \<lparr>database = db0, calls = 0, currentTask = 0, successCount = 0, failCount = 0, trace = []\<rparr>"

text \<open>
  \<open>main\<close>, from the point where the configuration is read and the connections are open
  (a failure before that point ends the run before any job): the tables, the queue,
  the workers. A send that blocks for ever ends the process as a panic does.
\<close>

definition main ::
  "(nat \<Rightarrow> job \<Rightarrow> error + 'd RawCandlestick list) \<Rightarrow> 'f store \<Rightarrow> (string \<Rightarrow> string)
     \<Rightarrow> ('d \<Rightarrow> 'f::zero) \<Rightarrow> string list \<Rightarrow> Time list \<Rightarrow> 'f database \<Rightarrow> 'f state go" where
  "main remote st U F symbols dates db0 =
     (case ensure_tables st U symbols (init db0) of
        Panic \<Rightarrow> Panic
      | Return s \<Rightarrow>
          (case build_jobs symbols dates of
             None \<Rightarrow> Panic
           | Some jobs \<Rightarrow> worker remote st U F retryCfg (buffer jobs) s))"

section \<open>The sequential program\<close>

text \<open>
  Its transform loop has no test for absent prices: converting through a \<open>nil\<close>
  pointer is a panic.
\<close>

fun transform_loop_seq ::
  "('d \<Rightarrow> 'f) \<Rightarrow> string \<Rightarrow> 'd RawCandlestick list \<Rightarrow> 'f Candlestick list
     \<Rightarrow> 'f Candlestick list go" where
  "transform_loop_seq F symb [] records = Return records"
| "transform_loop_seq F symb (c # cs) records =
     (if qOpen c = None \<or> qClose c = None \<or> qHigh c = None \<or> qLow c = None \<or>
         qTurnover c = None
      then Panic
      else transform_loop_seq F symb cs
             (records @
              [\<lparr>Symbol = symb, Timestamp = Unix (qTimestamp c) 0,
                Open = F (the (qOpen c)), Close = F (the (qClose c)),
                High = F (the (qHigh c)), Low = F (the (qLow c)),
                Volume = qVolume c, Turnover = F (the (qTurnover c))\<rparr>]))"

text \<open>The loop over the dates of one symbol, and the loop over the symbols.\<close>

fun dates_loop_seq ::
  "(nat \<Rightarrow> job \<Rightarrow> error + 'd RawCandlestick list) \<Rightarrow> 'f store \<Rightarrow> (string \<Rightarrow> string)
     \<Rightarrow> ('d \<Rightarrow> 'f) \<Rightarrow> string \<Rightarrow> Time list \<Rightarrow> 'f state \<Rightarrow> 'f state go" where
  "dates_loop_seq remote st U F symb [] s = Return s"
| "dates_loop_seq remote st U F symb (d # ds) s =
     (let j = \<lparr>symbol = symb, date = d\<rparr>;
          cur = currentTask s + 1;
          s1 = s\<lparr>calls := calls s + 1, currentTask := cur,
                 trace := trace s @ [Progress cur j, Fetch j 1]\<rparr>
      in case remote (calls s) j of
           Inl err \<Rightarrow>
             dates_loop_seq remote st U F symb ds (s1\<lparr>trace := trace s1 @ [Failed err]\<rparr>)
         | Inr candlesticks \<Rightarrow>
             (case transform_loop_seq F symb candlesticks [] of
                Panic \<Rightarrow> Panic
              | Return records \<Rightarrow>
                  (case InsertCandlesticks_seq st U (database s1) symb records of
                     Panic \<Rightarrow> Panic
                   | Return (Some err, db', logged) \<Rightarrow>
                       dates_loop_seq remote st U F symb ds
                         (s1\<lparr>database := db',
                              trace := trace s1 @ map InsertFailed logged @
                                [DbInsertFailed err]\<rparr>)
                   | Return (None, db', logged) \<Rightarrow>
                       dates_loop_seq remote st U F symb ds
                         (s1\<lparr>database := db',
                              trace := trace s1 @ map InsertFailed logged @
                                [Done (length records)]\<rparr>))))"

fun symbols_loop_seq ::
  "(nat \<Rightarrow> job \<Rightarrow> error + 'd RawCandlestick list) \<Rightarrow> 'f store \<Rightarrow> (string \<Rightarrow> string)
     \<Rightarrow> ('d \<Rightarrow> 'f) \<Rightarrow> string list \<Rightarrow> Time list \<Rightarrow> 'f state \<Rightarrow> 'f state go" where
  "symbols_loop_seq remote st U F [] dates s = Return s"
| "symbols_loop_seq remote st U F (symb # rest) dates s =
     (case EnsureTable_seq st U (database s) symb of
        Panic \<Rightarrow> Panic
      | Return (Some err, db') \<Rightarrow>
          symbols_loop_seq remote st U F rest dates
            (s\<lparr>database := db', trace := trace s @ [CreateFailed err]\<rparr>)
      | Return (None, db') \<Rightarrow>
          (case dates_loop_seq remote st U F symb dates (s\<lparr>database := db'\<rparr>) of
             Panic \<Rightarrow> Panic
           | Return s' \<Rightarrow> symbols_loop_seq remote st U F rest dates s'))"

definition main_seq ::
  "(nat \<Rightarrow> job \<Rightarrow> error + 'd RawCandlestick list) \<Rightarrow> 'f store \<Rightarrow> (string \<Rightarrow> string)
     \<Rightarrow> ('d \<Rightarrow> 'f) \<Rightarrow> string list \<Rightarrow> Time list \<Rightarrow> 'f database \<Rightarrow> 'f state go" where
  "main_seq remote st U F symbols dates db0 =
     symbols_loop_seq remote st U F symbols dates (init db0)"

section \<open>Observations on a trace\<close>

text \<open>The number of calls of the quote service in a trace, and its sleeps in order.\<close>

fun is_Fetch :: "event \<Rightarrow> bool" where
  "is_Fetch (Fetch j attempt) = True"
| "is_Fetch e = False"

definition fetches :: "event list \<Rightarrow> nat" where
  "fetches tr = length (filter is_Fetch tr)"

fun sleeps :: "event list \<Rightarrow> int64 list" where
  "sleeps [] = []"
| "sleeps (Sleep d # tr) = d # sleeps tr"
| "sleeps (e # tr) = sleeps tr"

text \<open>The duration slept after the failed attempt \<open>attempt\<close>, in nanoseconds.\<close>

definition delay :: "RetryConfig \<Rightarrow> int64 \<Rightarrow> int64" where
  "delay cfg attempt =
     (case backoff_base cfg attempt of Panic \<Rightarrow> 0 | Return base \<Rightarrow> base * Millisecond)"

section \<open>Observations on a database\<close>

text \<open>
  A database grows to another when the second has the same tables and each of them
  holds the rows of the first, in their places, followed by the rows added.
\<close>

definition grows_to :: "'f database \<Rightarrow> 'f database \<Rightarrow> bool" where
  "grows_to db db' =
     (\<forall>t. case db t of
            None \<Rightarrow> db' t = None
          | Some rows \<Rightarrow> (\<exists>added. db' t = Some (rows @ added)))"

section \<open>Example inputs\<close>

text \<open>A store in which no statement fails.\<close>

definition no_faults :: "'f store" where
  "no_faults =
     \<lparr>create_err = (\<lambda>t. None), prepare_err = (\<lambda>t. None),
      exists_err = (\<lambda>t ts. None), exec_err = (\<lambda>t r. None)\<rparr>"

text \<open>A store that refuses every row of volume 50.\<close>

definition reject_second :: "int store" where
  "reject_second =
     no_faults\<lparr>exec_err := (\<lambda>t r. if col_volume r = 50 then Some ''rejected'' else None)\<rparr>"

text \<open>A database with the empty table of \<open>AAPL.US\<close>, a job, and two records to insert.\<close>

definition ex_db :: "int database" where
  "ex_db = [''aapl_us'' \<mapsto> []]"

definition ex_job :: job where
  "ex_job = \<lparr>symbol = ''AAPL.US'', date = Unix 1760486400 0\<rparr>"

definition ex_candles :: "int Candlestick list" where
  "ex_candles =
     [\<lparr>Symbol = ''AAPL.US'', Timestamp = Unix 60 0, Open = 1, Close = 2, High = 3, Low = 1,
       Volume = 10, Turnover = 20\<rparr>,
      \<lparr>Symbol = ''AAPL.US'', Timestamp = Unix 120 0, Open = 5, Close = 5, High = 5, Low = 5,
       Volume = 50, Turnover = 60\<rparr>]"

text \<open>Two symbols and two dates.\<close>

definition ex_symbols :: "string list" where
  "ex_symbols = [''AAPL.US'', ''TSLA.US'']"

definition ex_dates :: "Time list" where
  "ex_dates = [Unix 1760486400 0, Unix 1760572800 0]"

text \<open>
  A quote service whose first call fails, one whose calls all fail, and one that
  answers every call with no points.
\<close>

definition remote_fail_once :: "nat \<Rightarrow> job \<Rightarrow> error + int RawCandlestick list" where
  "remote_fail_once n j = (if n = 0 then Inl ''timeout'' else Inr [])"

definition remote_down :: "nat \<Rightarrow> job \<Rightarrow> error + int RawCandlestick list" where
  "remote_down n j = Inl ''timeout''"

definition remote_empty :: "nat \<Rightarrow> job \<Rightarrow> error + int RawCandlestick list" where
  "remote_empty n j = Inr []"

text \<open>A store in which no table can be created, and a database without tables.\<close>

definition create_fails :: "int store" where
  "create_fails = no_faults\<lparr>create_err := (\<lambda>t. Some ''permission denied'')\<rparr>"

definition no_tables :: "int database" where
  "no_tables = Map.empty"

text \<open>Three points of the quote service.\<close>

definition ex_points :: "int RawCandlestick list" where
  "ex_points =
     [\<lparr>qClose = Some 2, qOpen = Some 1, qLow = Some 1, qHigh = Some 3, qVolume = 10,
       qTurnover = Some 20, qTimestamp = 60\<rparr>,
      \<lparr>qClose = Some 2, qOpen = Some 1, qLow = Some 1, qHigh = None, qVolume = 20,
       qTurnover = Some 40, qTimestamp = 120\<rparr>,
      \<lparr>qClose = Some 2, qOpen = Some 2, qLow = Some 2, qHigh = Some 4, qVolume = 30,
       qTurnover = None, qTimestamp = 180\<rparr>]"

section \<open>Lemmas on strings\<close>

lemma Split_not_Nil: "Split s sep \<noteq> []"
  by (induction s) auto

lemma length_Split: "length (Split s sep) = Suc (count_list s sep)"
proof (induction s)
  case Nil
  show ?case by simp
next
  case (Cons c cs)
  have "length (tl (Split cs sep)) = count_list cs sep"
    using Cons.IH by simp
  then show ?case using Cons.IH by simp
qed

lemma count_list_pos_iff: "0 < count_list s c \<longleftrightarrow> c \<in> set s"
  by (induction s) auto

lemma Split_no_sep: "sep \<notin> set s \<Longrightarrow> Split s sep = [s]"
  by (induction s) auto

lemma Split_append:
  "sep \<notin> set b \<Longrightarrow> Split (b @ sep # r) sep = b # Split r sep"
  by (induction b) auto

section \<open>Lemmas on the store\<close>

lemma insert_on_conflict_other:
  "t' \<noteq> t \<Longrightarrow> insert_on_conflict_do_nothing t r db t' = db t'"
  by (simp add: insert_on_conflict_do_nothing_def split: option.splits)

lemma insert_loop_other:
  "t' \<noteq> t \<Longrightarrow> fst (insert_loop st t cs (db, lg)) t' = db t'"
  by (induction cs arbitrary: db lg) (auto simp: insert_on_conflict_other split: option.splits)

lemma col_timestamp_row_of [simp]: "col_timestamp (row_of c) = Timestamp c"
  by (simp add: row_of_def)

lemma insert_on_conflict_grows:
  assumes "db t = Some rows"
  shows "\<exists>added. insert_on_conflict_do_nothing t r db t = Some (rows @ added) \<and>
     col_timestamp r \<in> set (map col_timestamp (rows @ added)) \<and>
     (distinct (map col_timestamp rows) \<longrightarrow> distinct (map col_timestamp (rows @ added)))"
proof (cases "col_timestamp r \<in> set (map col_timestamp rows)")
  case True
  then have "insert_on_conflict_do_nothing t r db t = Some (rows @ [])"
    using assms by (simp add: insert_on_conflict_do_nothing_def)
  then show ?thesis using True by (intro exI [of _ "[]"]) simp
next
  case False
  then have "insert_on_conflict_do_nothing t r db t = Some (rows @ [r])"
    using assms by (simp add: insert_on_conflict_do_nothing_def)
  then show ?thesis using False by (intro exI [of _ "[r]"]) simp
qed

lemma insert_loop_grows:
  assumes "db t = Some rows"
  shows "\<exists>added. fst (insert_loop st t cs (db, lg)) t = Some (rows @ added) \<and>
     (\<forall>c\<in>set cs. exec_err st t (row_of c) = None \<longrightarrow>
        Timestamp c \<in> set (map col_timestamp (rows @ added))) \<and>
     (distinct (map col_timestamp rows) \<longrightarrow> distinct (map col_timestamp (rows @ added)))"
  using assms
proof (induction cs arbitrary: db lg rows)
  case Nil
  then show ?case by (intro exI [of _ "[]"]) simp
next
  case (Cons c cs)
  show ?case
  proof (cases "exec_err st t (row_of c)")
    case (Some e)
    obtain added where a: "fst (insert_loop st t cs (db, lg @ [e])) t = Some (rows @ added)"
      "\<forall>c\<in>set cs. exec_err st t (row_of c) = None \<longrightarrow>
        Timestamp c \<in> set (map col_timestamp (rows @ added))"
      "distinct (map col_timestamp rows) \<longrightarrow> distinct (map col_timestamp (rows @ added))"
      using Cons.IH [where db = db and rows = rows and lg = "lg @ [e]"] Cons.prems by blast
    show ?thesis using Some a by (intro exI [of _ added]) simp
  next
    case None
    let ?db = "insert_on_conflict_do_nothing t (row_of c) db"
    obtain a1 where a1: "?db t = Some (rows @ a1)"
      "Timestamp c \<in> set (map col_timestamp (rows @ a1))"
      "distinct (map col_timestamp rows) \<longrightarrow> distinct (map col_timestamp (rows @ a1))"
      using insert_on_conflict_grows [where db = db and t = t and rows = rows and r = "row_of c"] Cons.prems by auto
    obtain a2 where a2: "fst (insert_loop st t cs (?db, lg)) t = Some ((rows @ a1) @ a2)"
      "\<forall>c\<in>set cs. exec_err st t (row_of c) = None \<longrightarrow>
        Timestamp c \<in> set (map col_timestamp ((rows @ a1) @ a2))"
      "distinct (map col_timestamp (rows @ a1)) \<longrightarrow> distinct (map col_timestamp ((rows @ a1) @ a2))"
      using Cons.IH [where db = "?db" and rows = "rows @ a1" and lg = lg] a1(1) by blast
    show ?thesis using None a1 a2 by (intro exI [of _ "a1 @ a2"]) auto
  qed
qed

lemma insert_loop_noop:
  assumes "db t = Some rows"
    and "\<forall>c\<in>set cs. exec_err st t (row_of c) = None \<longrightarrow>
        Timestamp c \<in> set (map col_timestamp rows)"
  shows "fst (insert_loop st t cs (db, lg)) = db"
  using assms
proof (induction cs arbitrary: lg)
  case Nil
  show ?case by simp
next
  case (Cons c cs)
  show ?case
  proof (cases "exec_err st t (row_of c)")
    case (Some e)
    then show ?thesis using Cons by simp
  next
    case None
    then have "insert_on_conflict_do_nothing t (row_of c) db = db"
      using Cons.prems by (simp add: insert_on_conflict_do_nothing_def)
    then show ?thesis using None Cons by simp
  qed
qed

lemma insert_loop_log:
  "snd (insert_loop st t cs (db, lg)) = lg @ List.map_filter (\<lambda>c. exec_err st t (row_of c)) cs"
  by (induction cs arbitrary: db lg) (auto simp: List.map_filter_simps split: option.splits)


lemma insert_loop_seq_other:
  "t' \<noteq> t \<Longrightarrow> fst (insert_loop_seq st t cs (db, lg)) t' = db t'"
  by (induction cs arbitrary: db lg) (auto simp: insert_on_conflict_other split: option.splits)

lemma insert_loop_seq_grows:
  assumes "db t = Some rows"
  shows "\<exists>added. fst (insert_loop_seq st t cs (db, lg)) t = Some (rows @ added) \<and>
     (\<forall>c\<in>set cs. exists_err st t (Timestamp c) = None \<longrightarrow>
        exec_err st t (row_of c) = None \<longrightarrow>
        Timestamp c \<in> set (map col_timestamp (rows @ added))) \<and>
     (distinct (map col_timestamp rows) \<longrightarrow> distinct (map col_timestamp (rows @ added)))"
  using assms
proof (induction cs arbitrary: db lg rows)
  case Nil
  then show ?case by (intro exI [of _ "[]"]) simp
next
  case (Cons c cs)
  have skip: "\<exists>added. fst (insert_loop_seq st t cs (db, lg')) t = Some (rows @ added) \<and>
     (\<forall>c\<in>set cs. exists_err st t (Timestamp c) = None \<longrightarrow>
        exec_err st t (row_of c) = None \<longrightarrow>
        Timestamp c \<in> set (map col_timestamp (rows @ added))) \<and>
     (distinct (map col_timestamp rows) \<longrightarrow> distinct (map col_timestamp (rows @ added)))"
    for lg'
    using Cons.IH [where db = db and rows = rows and lg = lg'] Cons.prems by blast
  show ?case
  proof (cases "exists_err st t (Timestamp c)")
    case (Some e)
    obtain added where a: "fst (insert_loop_seq st t cs (db, lg @ [e])) t = Some (rows @ added)"
      "\<forall>c\<in>set cs. exists_err st t (Timestamp c) = None \<longrightarrow>
        exec_err st t (row_of c) = None \<longrightarrow>
        Timestamp c \<in> set (map col_timestamp (rows @ added))"
      "distinct (map col_timestamp rows) \<longrightarrow> distinct (map col_timestamp (rows @ added))"
      using skip [of "lg @ [e]"] by blast
    show ?thesis using Some a by (intro exI [of _ added]) simp
  next
    case None
    show ?thesis
    proof (cases "select_exists t (Timestamp c) db")
      case True
      then have here: "Timestamp c \<in> set (map col_timestamp rows)"
        using Cons.prems by (simp add: select_exists_def)
      obtain added where a: "fst (insert_loop_seq st t cs (db, lg)) t = Some (rows @ added)"
        "\<forall>c\<in>set cs. exists_err st t (Timestamp c) = None \<longrightarrow>
          exec_err st t (row_of c) = None \<longrightarrow>
          Timestamp c \<in> set (map col_timestamp (rows @ added))"
        "distinct (map col_timestamp rows) \<longrightarrow> distinct (map col_timestamp (rows @ added))"
        using skip [of lg] by blast
      show ?thesis using None True here a by (intro exI [of _ added]) auto
    next
      case False
      show ?thesis
      proof (cases "exec_err st t (row_of c)")
        case (Some e)
        obtain added where a: "fst (insert_loop_seq st t cs (db, lg @ [e])) t = Some (rows @ added)"
          "\<forall>c\<in>set cs. exists_err st t (Timestamp c) = None \<longrightarrow>
            exec_err st t (row_of c) = None \<longrightarrow>
            Timestamp c \<in> set (map col_timestamp (rows @ added))"
          "distinct (map col_timestamp rows) \<longrightarrow> distinct (map col_timestamp (rows @ added))"
          using skip [of "lg @ [e]"] by blast
        show ?thesis using \<open>exists_err st t (Timestamp c) = None\<close> False Some a
          by (intro exI [of _ added]) simp
      next
        case nofail: None
        let ?db = "insert_on_conflict_do_nothing t (row_of c) db"
        obtain a1 where a1: "?db t = Some (rows @ a1)"
          "Timestamp c \<in> set (map col_timestamp (rows @ a1))"
          "distinct (map col_timestamp rows) \<longrightarrow> distinct (map col_timestamp (rows @ a1))"
          using insert_on_conflict_grows [where db = db and t = t and rows = rows and r = "row_of c"]
            Cons.prems by auto
        obtain a2 where a2:
          "fst (insert_loop_seq st t cs (?db, lg)) t = Some ((rows @ a1) @ a2)"
          "\<forall>c\<in>set cs. exists_err st t (Timestamp c) = None \<longrightarrow>
            exec_err st t (row_of c) = None \<longrightarrow>
            Timestamp c \<in> set (map col_timestamp ((rows @ a1) @ a2))"
          "distinct (map col_timestamp (rows @ a1)) \<longrightarrow>
            distinct (map col_timestamp ((rows @ a1) @ a2))"
          using Cons.IH [where db = "?db" and rows = "rows @ a1" and lg = lg] a1(1) by blast
        show ?thesis using \<open>exists_err st t (Timestamp c) = None\<close> False nofail a1 a2
          by (intro exI [of _ "a1 @ a2"]) auto
      qed
    qed
  qed
qed

lemma insert_loop_seq_noop:
  assumes "db t = Some rows"
    and "\<forall>c\<in>set cs. exists_err st t (Timestamp c) = None \<longrightarrow>
        exec_err st t (row_of c) = None \<longrightarrow>
        Timestamp c \<in> set (map col_timestamp rows)"
  shows "fst (insert_loop_seq st t cs (db, lg)) = db"
  using assms
proof (induction cs arbitrary: lg)
  case Nil
  show ?case by simp
next
  case (Cons c cs)
  then show ?case
    by (auto simp: select_exists_def split: option.splits)
qed

lemma InsertCandlesticks_run:
  assumes n: "safeTableName U symb = Return name" and p: "Prepare st db name = None"
  shows "\<exists>db1 rows added. InsertCandlesticks st U db symb cs =
        Return (None, db1, List.map_filter (\<lambda>c. exec_err st name (row_of c)) cs) \<and>
      db name = Some rows \<and> db1 name = Some (rows @ added) \<and>
      (\<forall>t. t \<noteq> name \<longrightarrow> db1 t = db t) \<and>
      (\<forall>c\<in>set cs. exec_err st name (row_of c) = None \<longrightarrow>
         Timestamp c \<in> set (map col_timestamp (rows @ added))) \<and>
      (distinct (map col_timestamp rows) \<longrightarrow> distinct (map col_timestamp (rows @ added))) \<and>
      Prepare st db1 name = None \<and>
      fst (insert_loop st name cs (db1, [])) = db1"
proof -
  obtain rows where rows: "db name = Some rows" and pe: "prepare_err st name = None"
    using p by (auto simp: Prepare_def split: option.splits)
  let ?r = "insert_loop st name cs (db, [])"
  obtain added where a: "fst ?r name = Some (rows @ added)"
    "\<forall>c\<in>set cs. exec_err st name (row_of c) = None \<longrightarrow>
       Timestamp c \<in> set (map col_timestamp (rows @ added))"
    "distinct (map col_timestamp rows) \<longrightarrow> distinct (map col_timestamp (rows @ added))"
    using insert_loop_grows [where db = db and t = name and rows = rows and st = st
        and cs = cs and lg = "[]"] rows by blast
  have o: "\<forall>t. t \<noteq> name \<longrightarrow> fst ?r t = db t"
    using insert_loop_other [of _ name st cs db "[]"] by simp
  have l: "snd ?r = List.map_filter (\<lambda>c. exec_err st name (row_of c)) cs"
    using insert_loop_log [of st name cs db "[]"] by simp
  have r: "InsertCandlesticks st U db symb cs = Return (None, fst ?r, snd ?r)"
    using n p by (simp add: InsertCandlesticks_def split: prod.splits)
  have p1: "Prepare st (fst ?r) name = None"
    using a(1) pe by (simp add: Prepare_def)
  have i: "fst (insert_loop st name cs (fst ?r, [])) = fst ?r"
    using insert_loop_noop [where db = "fst ?r" and t = name and rows = "rows @ added"
        and st = st and cs = cs and lg = "[]"] a(1) a(2) by blast
  show ?thesis
    apply (rule exI [of _ "fst ?r"], rule exI [of _ rows], rule exI [of _ added])
    using r l rows a o p1 i apply simp
    done
qed

lemma InsertCandlesticks_conc_idempotent:
  assumes n: "safeTableName U symb = Return name"
  shows "\<exists>err db1 lg.
      InsertCandlesticks st U db symb cs = Return (err, db1, lg) \<and>
      InsertCandlesticks st U db1 symb cs = Return (err, db1, lg) \<and>
      (\<forall>t rows. db t = Some rows \<longrightarrow> (\<exists>added. db1 t = Some (rows @ added))) \<and>
      ((\<forall>t rows. db t = Some rows \<longrightarrow> distinct (map col_timestamp rows)) \<longrightarrow>
       (\<forall>t rows. db1 t = Some rows \<longrightarrow> distinct (map col_timestamp rows))) \<and>
      lg = (if err = None then List.map_filter (\<lambda>c. exec_err st name (row_of c)) cs else [])"
proof (cases "Prepare st db name")
  case (Some e)
  then have "InsertCandlesticks st U db symb cs = Return (Some e, db, [])"
    using n by (simp add: InsertCandlesticks_def)
  then show ?thesis by (intro exI [of _ "Some e"] exI [of _ db] exI [of _ "[]"]) simp
next
  case None
  let ?lg = "List.map_filter (\<lambda>c. exec_err st name (row_of c)) cs"
  obtain db1 rows added where r:
    "InsertCandlesticks st U db symb cs = Return (None, db1, ?lg)"
    "db name = Some rows" "db1 name = Some (rows @ added)"
    "\<forall>t. t \<noteq> name \<longrightarrow> db1 t = db t"
    "distinct (map col_timestamp rows) \<longrightarrow> distinct (map col_timestamp (rows @ added))"
    "Prepare st db1 name = None"
    "fst (insert_loop st name cs (db1, [])) = db1"
    using InsertCandlesticks_run [OF n None, of cs] by blast
  have "insert_loop st name cs (db1, []) = (db1, ?lg)"
    using r(7) insert_loop_log [of st name cs db1 "[]"] by (simp add: prod_eq_iff)
  then have again: "InsertCandlesticks st U db1 symb cs = Return (None, db1, ?lg)"
    using n r(6) by (simp add: InsertCandlesticks_def)
  have kept: "\<exists>added. db1 t = Some (rows' @ added)" if "db t = Some rows'" for t rows'
  proof (cases "t = name")
    case True
    then show ?thesis using that r(2) r(3) by simp
  next
    case False
    then have "db1 t = Some (rows' @ [])" using that r(4) by simp
    then show ?thesis by blast
  qed
  have pk: "distinct (map col_timestamp rows')"
    if "\<forall>t rows. db t = Some rows \<longrightarrow> distinct (map col_timestamp rows)"
      and "db1 t = Some rows'" for t rows'
  proof (cases "t = name")
    case True
    then show ?thesis using that r(2) r(3) r(5) by simp
  next
    case False
    then show ?thesis using that r(4) by simp
  qed
  have c1: "\<forall>t rows. db t = Some rows \<longrightarrow> (\<exists>added. db1 t = Some (rows @ added))"
    using kept by blast
  have c2: "(\<forall>t rows. db t = Some rows \<longrightarrow> distinct (map col_timestamp rows)) \<longrightarrow>
       (\<forall>t rows. db1 t = Some rows \<longrightarrow> distinct (map col_timestamp rows))"
    using pk by blast
  show ?thesis
    apply (rule exI [of _ None], rule exI [of _ db1], rule exI [of _ ?lg])
    using r(1) again c1 c2 apply simp
    done
qed

lemma tableName_seq_returns: "\<exists>name. tableName_seq U symb = Return name"
  by (cases "Split symb CHR ''.''") (auto simp: tableName_seq_def index_def Split_not_Nil)

lemma InsertCandlesticks_seq_idempotent:
  "\<exists>err db1 lg lg2.
      InsertCandlesticks_seq st U db symb cs = Return (err, db1, lg) \<and>
      InsertCandlesticks_seq st U db1 symb cs = Return (err, db1, lg2) \<and>
      (\<forall>t rows. db t = Some rows \<longrightarrow> (\<exists>added. db1 t = Some (rows @ added))) \<and>
      ((\<forall>t rows. db t = Some rows \<longrightarrow> distinct (map col_timestamp rows)) \<longrightarrow>
       (\<forall>t rows. db1 t = Some rows \<longrightarrow> distinct (map col_timestamp rows)))"
proof -
  obtain name where n: "tableName_seq U symb = Return name"
    using tableName_seq_returns by blast
  show ?thesis
  proof (cases "Prepare st db name")
    case (Some e)
    then have "InsertCandlesticks_seq st U db symb cs = Return (Some e, db, [])"
      using n by (simp add: InsertCandlesticks_seq_def)
    then show ?thesis
      by (intro exI [of _ "Some e"] exI [of _ db] exI [of _ "[]"]) simp
  next
    case None
    obtain rows where rows: "db name = Some rows" and pe: "prepare_err st name = None"
      using None by (auto simp: Prepare_def split: option.splits)
    let ?r = "insert_loop_seq st name cs (db, [])"
    let ?db1 = "fst ?r"
    obtain added where a: "?db1 name = Some (rows @ added)"
      "\<forall>c\<in>set cs. exists_err st name (Timestamp c) = None \<longrightarrow>
         exec_err st name (row_of c) = None \<longrightarrow>
         Timestamp c \<in> set (map col_timestamp (rows @ added))"
      "distinct (map col_timestamp rows) \<longrightarrow> distinct (map col_timestamp (rows @ added))"
      using insert_loop_seq_grows [where db = db and t = name and rows = rows and st = st
          and cs = cs and lg = "[]"] rows by blast
    have o: "\<forall>t. t \<noteq> name \<longrightarrow> ?db1 t = db t"
      using insert_loop_seq_other [of _ name st cs db "[]"] by simp
    have r: "InsertCandlesticks_seq st U db symb cs = Return (None, ?db1, snd ?r)"
      using n None by (simp add: InsertCandlesticks_seq_def split: prod.splits)
    have p1: "Prepare st ?db1 name = None"
      using a(1) pe by (simp add: Prepare_def)
    let ?r2 = "insert_loop_seq st name cs (?db1, [])"
    have i: "fst ?r2 = ?db1"
      using insert_loop_seq_noop [where db = "?db1" and t = name and rows = "rows @ added"
          and st = st and cs = cs and lg = "[]"] a(1) a(2) by blast
    then have "?r2 = (?db1, snd ?r2)"
      by (simp add: prod_eq_iff)
    then have again: "InsertCandlesticks_seq st U ?db1 symb cs = Return (None, ?db1, snd ?r2)"
      using n p1 by (simp add: InsertCandlesticks_seq_def)
    have kept: "\<exists>added. ?db1 t = Some (rows' @ added)" if "db t = Some rows'" for t rows'
    proof (cases "t = name")
      case True
      then show ?thesis using that rows a(1) by simp
    next
      case False
      then have "?db1 t = Some (rows' @ [])" using that o by simp
      then show ?thesis by blast
    qed
    have pk: "distinct (map col_timestamp rows')"
      if "\<forall>t rows. db t = Some rows \<longrightarrow> distinct (map col_timestamp rows)"
        and "?db1 t = Some rows'" for t rows'
    proof (cases "t = name")
      case True
      then show ?thesis using that rows a(1) a(3) by simp
    next
      case False
      then show ?thesis using that o by simp
    qed
    have c1: "\<forall>t rows. db t = Some rows \<longrightarrow> (\<exists>added. ?db1 t = Some (rows @ added))"
      using kept by blast
    have c2: "(\<forall>t rows. db t = Some rows \<longrightarrow> distinct (map col_timestamp rows)) \<longrightarrow>
         (\<forall>t rows. ?db1 t = Some rows \<longrightarrow> distinct (map col_timestamp rows))"
      using pk by blast
    show ?thesis
      apply (rule exI [of _ None], rule exI [of _ ?db1], rule exI [of _ "snd ?r"],
          rule exI [of _ "snd ?r2"])
      using r again c1 c2 apply simp
      done
  qed
qed

section \<open>Lemmas on panics\<close>

lemma safeTableName_Panic_iff:
  "(safeTableName U symb = Panic) = (CHR ''.'' \<notin> set symb)"
  by (auto simp: safeTableName_def index_def length_Split count_list_pos_iff
      split: go.splits)

lemma EnsureTable_Panic_iff:
  "(EnsureTable st U db symb = Panic) = (CHR ''.'' \<notin> set symb)"
proof -
  have a: "(safeTableName U symb = Panic) = (CHR ''.'' \<notin> set symb)"
    by (auto simp: safeTableName_def index_def length_Split count_list_pos_iff
        split: go.splits)
  have b: "(EnsureTable st U db symb = Panic) = (safeTableName U symb = Panic)"
    by (simp add: EnsureTable_def split: go.splits option.splits)
  show ?thesis using a b by simp
qed

lemma InsertCandlesticks_Panic_iff:
  "(InsertCandlesticks st U db symb cs = Panic) = (CHR ''.'' \<notin> set symb)"
proof -
  have a: "(safeTableName U symb = Panic) = (CHR ''.'' \<notin> set symb)"
    by (auto simp: safeTableName_def index_def length_Split count_list_pos_iff
        split: go.splits)
  have c: "(InsertCandlesticks st U db symb cs = Panic) = (safeTableName U symb = Panic)"
    by (simp add: InsertCandlesticks_def split: go.splits option.splits prod.splits)
  show ?thesis using a c by simp
qed

section \<open>Lemmas on the transform stage and the task set\<close>

lemma transform_loop_eq:
  "transform_loop F symb pts records =
     records @
     map (\<lambda>c. \<lparr>Symbol = symb, Timestamp = Unix (qTimestamp c) 0,
                Open = F (the (qOpen c)), Close = F (the (qClose c)),
                High = F (the (qHigh c)), Low = F (the (qLow c)),
                Volume = qVolume c,
                Turnover = (case qTurnover c of None \<Rightarrow> 0 | Some t \<Rightarrow> F t)\<rparr>)
       (filter (\<lambda>c. qOpen c \<noteq> None \<and> qClose c \<noteq> None \<and> qHigh c \<noteq> None \<and> qLow c \<noteq> None) pts)"
  by (induction pts arbitrary: records) (auto simp: Let_def)

lemma enqueue_dates_fits:
  "length (buffer ch) + length ds \<le> capacity ch \<Longrightarrow>
   enqueue_dates symb ds ch =
     Some (ch\<lparr>buffer := buffer ch @ map (\<lambda>d. \<lparr>symbol = symb, date = d\<rparr>) ds\<rparr>)"
  by (induction ds arbitrary: ch) (auto simp: send_def)

lemma enqueue_symbols_fits:
  "length (buffer ch) + length syms * length ds \<le> capacity ch \<Longrightarrow>
   enqueue_symbols syms ds ch =
     Some (ch\<lparr>buffer := buffer ch @
        concat (map (\<lambda>s. map (\<lambda>d. \<lparr>symbol = s, date = d\<rparr>) ds) syms)\<rparr>)"
proof (induction syms arbitrary: ch)
  case Nil
  show ?case by simp
next
  case (Cons s syms)
  have "length (buffer ch) + length ds \<le> capacity ch" using Cons.prems by simp
  then have d: "enqueue_dates s ds ch =
     Some (ch\<lparr>buffer := buffer ch @ map (\<lambda>d. \<lparr>symbol = s, date = d\<rparr>) ds\<rparr>)"
    by (rule enqueue_dates_fits)
  let ?ch = "ch\<lparr>buffer := buffer ch @ map (\<lambda>d. \<lparr>symbol = s, date = d\<rparr>) ds\<rparr>"
  have "length (buffer ?ch) + length syms * length ds \<le> capacity ?ch"
    using Cons.prems by simp
  then show ?case using d Cons.IH [of ?ch] by simp
qed

lemma pairs_of_jobs:
  "map (\<lambda>j. (symbol j, date j)) (concat (map (\<lambda>s. map (\<lambda>d. \<lparr>symbol = s, date = d\<rparr>) ds) syms)) =
   List.product syms ds"
  by (induction syms) (simp_all add: comp_def)

lemma count_list_Pair:
  "count_list (map (Pair x) ys) (a, b) = (if x = a then count_list ys b else 0)"
  by (induction ys) auto

lemma count_list_product:
  "count_list (List.product xs ys) (a, b) = count_list xs a * count_list ys b"
  by (induction xs) (auto simp: count_list_Pair)

lemma count_list_jobs:
  "count_list js \<lparr>symbol = s, date = d\<rparr> = count_list (map (\<lambda>j. (symbol j, date j)) js) (s, d)"
  by (induction js) auto

lemma distinct_jobs:
  "distinct (map (\<lambda>j. (symbol j, date j)) js) \<Longrightarrow> distinct (js :: job list)"
  by (simp add: distinct_map)

lemma build_jobs_queue:
  "\<exists>jobs. build_jobs symbols dates = Some jobs \<and>
     map (\<lambda>j. (symbol j, date j)) (buffer jobs) = List.product symbols dates \<and>
     length (buffer jobs) = length symbols * length dates"
proof -
  let ?js = "concat (map (\<lambda>s. map (\<lambda>d. \<lparr>symbol = s, date = d\<rparr>) dates) symbols)"
  let ?ch = "(make_chan (length symbols * length dates) :: job chan)\<lparr>buffer := ?js\<rparr>"
  have b: "build_jobs symbols dates = Some ?ch"
    using enqueue_symbols_fits [of "make_chan (length symbols * length dates)" symbols dates]
    by (simp add: build_jobs_def make_chan_def)
  have p: "map (\<lambda>j. (symbol j, date j)) (buffer ?ch) = List.product symbols dates"
    by (simp add: pairs_of_jobs)
  have l: "length (buffer ?ch) = length symbols * length dates"
    using arg_cong [OF p, of length] by simp
  show ?thesis
    by (rule exI [of _ ?ch]) (intro conjI b p l)
qed

section \<open>Lemmas on the attempts of a job\<close>

lemma retry_loop_insert_error:
  assumes "attempt \<le>s MaxAttempts cfg" and "remote (calls s) j = Inr pts"
    and "InsertCandlesticks st U (database s) (symbol j) (transform F (symbol j) pts) =
      Return (Some e, db', lg)"
  shows "retry_loop remote st U F cfg j attempt s =
     Return (s\<lparr>database := db', calls := calls s + 1, failCount := failCount s + 1,
       trace := trace s @ [Fetch j attempt] @ map InsertFailed lg @ [DbInsertFailed e]\<rparr>)"
  using assms by (subst retry_loop.simps) (simp add: Let_def)

lemma retry_loop_insert_ok:
  assumes "attempt \<le>s MaxAttempts cfg" and "remote (calls s) j = Inr pts"
    and "InsertCandlesticks st U (database s) (symbol j) (transform F (symbol j) pts) =
      Return (None, db', lg)"
  shows "retry_loop remote st U F cfg j attempt s =
     Return (s\<lparr>database := db', calls := calls s + 1, successCount := successCount s + 1,
       trace := trace s @ [Fetch j attempt] @ map InsertFailed lg @
         [Done (length (transform F (symbol j) pts))]\<rparr>)"
  using assms by (subst retry_loop.simps) (simp add: Let_def)

lemma sint_succ:
  fixes a b :: int64
  assumes "a <s b"
  shows "sint (a + 1) = sint a + 1"
proof -
  have "sint a < sint b" using assms by (simp add: word_sless_alt)
  moreover have "sint b < 2 ^ 63" using sint_lt [of b] by simp
  moreover have "- (2 ^ 63) \<le> sint a" using sint_ge [of a] by simp
  ultimately have "- (2 ^ 63) \<le> sint a + 1 \<and> sint a + 1 < 2 ^ 63" by simp
  then show ?thesis
    by (simp add: sint_word_ariths signed_take_bit_int_eq_self)
qed

lemma sint_pred:
  fixes a :: int64
  assumes "1 \<le>s a"
  shows "sint (a - 1) = sint a - 1"
proof -
  have "1 \<le> sint a" using assms by (simp add: word_sle_eq)
  moreover have "sint a < 2 ^ 63" using sint_lt [of a] by simp
  ultimately have "- (2 ^ 63) \<le> sint a - 1 \<and> sint a - 1 < 2 ^ 63" by simp
  then show ?thesis
    by (simp add: sint_word_ariths signed_take_bit_int_eq_self)
qed

lemma backoff_base_returns:
  assumes "1 \<le>s attempt"
  shows "\<exists>base. backoff_base cfg attempt = Return base"
proof -
  have "0 \<le> sint (attempt - 1)"
    using assms sint_pred [OF assms] by (simp add: word_sle_eq)
  then have "\<not> attempt - 1 <s 0" by (simp add: word_sless_alt)
  then show ?thesis by (simp add: backoff_base_def shift_left_def Let_def)
qed

lemma sleeps_append: "sleeps (xs @ ys) = sleeps xs @ sleeps ys"
  by (induction xs rule: sleeps.induct) auto

lemma fetches_append: "fetches (xs @ ys) = fetches xs + fetches ys"
  by (simp add: fetches_def)

lemma sleeps_InsertFailed: "sleeps (map InsertFailed lg) = []"
  by (induction lg) auto

lemma fetches_InsertFailed: "fetches (map InsertFailed lg) = 0"
  by (induction lg) (auto simp: fetches_def)

lemma Admit_InsertFailed: "Admit \<notin> set (map InsertFailed lg)"
  by auto

lemma retry_loop_returns:
  assumes "1 \<le>s attempt" and "attempt \<le>s MaxAttempts cfg"
    and "retry_loop remote st U F cfg j attempt s = Return s'"
  shows "\<exists>added. trace s' = trace s @ added \<and> Admit \<notin> set added \<and>
     fetches added = calls s' - calls s \<and> 1 \<le> fetches added \<and>
     int (fetches added) \<le> sint (MaxAttempts cfg) - sint attempt + 1 \<and>
     sleeps added = map (\<lambda>k. delay cfg (attempt + of_nat k)) [0..<fetches added - 1] \<and>
     currentTask s' = currentTask s \<and>
     (successCount s' = successCount s + 1 \<and> failCount s' = failCount s \<or>
      successCount s' = successCount s \<and> failCount s' = failCount s + 1)"
  using assms
proof (induction remote st U F cfg j attempt s rule: retry_loop.induct)
  case (1 remote st U F cfg j attempt s)
  note one = \<open>1 \<le>s attempt\<close> and le = \<open>attempt \<le>s MaxAttempts cfg\<close>
  note run = \<open>retry_loop remote st U F cfg j attempt s = Return s'\<close>
  let ?s1 = "s\<lparr>calls := calls s + 1, trace := trace s @ [Fetch j attempt]\<rparr>"
  have room: "0 \<le> sint (MaxAttempts cfg) - sint attempt"
    using le by (simp add: word_sle_eq)
  show ?case
  proof (cases "remote (calls s) j")
    case (Inl err)
    show ?thesis
    proof (cases "attempt <s MaxAttempts cfg")
      case True
      obtain base where b: "backoff_base cfg attempt = Return base"
        using backoff_base_returns [OF one] by blast
      let ?s2 = "?s1\<lparr>trace := trace ?s1 @
          [Retry attempt err, Sleep (base * Millisecond)]\<rparr>"
      have rec: "retry_loop remote st U F cfg j (attempt + 1) ?s2 = Return s'"
        using run le True Inl b by (subst (asm) retry_loop.simps) (simp add: Let_def)
      have su: "sint (attempt + 1) = sint attempt + 1"
        using sint_succ [OF True] .
      have one': "1 \<le>s attempt + 1"
        using one su by (simp add: word_sle_eq)
      have le': "attempt + 1 \<le>s MaxAttempts cfg"
        using True su by (simp add: word_sle_eq word_sless_alt)
      obtain added where a: "trace s' = trace ?s2 @ added" "Admit \<notin> set added"
        "fetches added = calls s' - calls ?s2" "1 \<le> fetches added"
        "int (fetches added) \<le> sint (MaxAttempts cfg) - sint (attempt + 1) + 1"
        "sleeps added = map (\<lambda>k. delay cfg (attempt + 1 + of_nat k)) [0..<fetches added - 1]"
        "currentTask s' = currentTask ?s2"
        "successCount s' = successCount ?s2 + 1 \<and> failCount s' = failCount ?s2 \<or>
         successCount s' = successCount ?s2 \<and> failCount s' = failCount ?s2 + 1"
        using "1.IH" [OF le refl Inl True b one' le' rec] by blast
      let ?added = "[Fetch j attempt, Retry attempt err, Sleep (base * Millisecond)] @ added"
      have f: "fetches ?added = Suc (fetches added)"
        by (simp add: fetches_def)
      have d: "delay cfg attempt = base * Millisecond"
        using b by (simp add: delay_def)
      have "map (\<lambda>k. delay cfg (attempt + of_nat k)) [0..<Suc (fetches added - 1)] =
          delay cfg attempt # map (\<lambda>k. delay cfg (attempt + 1 + of_nat k)) [0..<fetches added - 1]"
        by (simp add: map_upt_Suc add.assoc del: upt_Suc)
      then have sl: "sleeps ?added =
          map (\<lambda>k. delay cfg (attempt + of_nat k)) [0..<fetches ?added - 1]"
        using a(4) a(6) d f by simp
      have c: "fetches ?added = calls s' - calls s"
        using a(3) a(4) f by simp
      have t: "trace s' = trace s @ ?added" using a(1) by simp
      have ad: "Admit \<notin> set ?added" using a(2) by simp
      have ge: "1 \<le> fetches ?added" using f by simp
      have bd: "int (fetches ?added) \<le> sint (MaxAttempts cfg) - sint attempt + 1"
        using a(5) su f by simp
      have ct: "currentTask s' = currentTask s" using a(7) by simp
      have cn: "successCount s' = successCount s + 1 \<and> failCount s' = failCount s \<or>
          successCount s' = successCount s \<and> failCount s' = failCount s + 1"
        using a(8) by simp
      show ?thesis
        by (rule exI [of _ ?added]) (intro conjI t ad c ge bd sl ct cn)
    next
      case False
      have r: "s' = ?s1\<lparr>failCount := failCount ?s1 + 1, trace := trace ?s1 @ [Failed err]\<rparr>"
        using run le False Inl by (subst (asm) retry_loop.simps) (simp add: Let_def)
      show ?thesis
        apply (rule exI [of _ "[Fetch j attempt, Failed err]"])
        using r room apply (simp add: fetches_def)
        done
    qed
  next
    case (Inr pts)
    let ?records = "transform F (symbol j) pts"
    show ?thesis
    proof (cases "InsertCandlesticks st U (database ?s1) (symbol j) ?records")
      case Panic
      then have "retry_loop remote st U F cfg j attempt s = Panic"
        using le Inr by (subst retry_loop.simps) (simp add: Let_def)
      then show ?thesis using run by simp
    next
      case (Return r)
      obtain err db' lg where r: "r = (err, db', lg)" by (cases r)
      show ?thesis
      proof (cases err)
        case None
        have s': "s' = ?s1\<lparr>database := db', successCount := successCount ?s1 + 1,
            trace := trace ?s1 @ map InsertFailed lg @ [Done (length ?records)]\<rparr>"
          using run le Inr Return r None
          by (subst (asm) retry_loop.simps) (simp add: Let_def)
        show ?thesis
          apply (rule exI [of _ "[Fetch j attempt] @ map InsertFailed lg @ [Done (length ?records)]"])
          using s' room
          apply (simp add: fetches_append sleeps_append sleeps_InsertFailed fetches_InsertFailed)
          apply (auto simp: fetches_def)
          done
      next
        case (Some e)
        have s': "s' = ?s1\<lparr>database := db', failCount := failCount ?s1 + 1,
            trace := trace ?s1 @ map InsertFailed lg @ [DbInsertFailed e]\<rparr>"
          using run le Inr Return r Some
          by (subst (asm) retry_loop.simps) (simp add: Let_def)
        show ?thesis
          apply (rule exI [of _ "[Fetch j attempt] @ map InsertFailed lg @ [DbInsertFailed e]"])
          using s' room
          apply (simp add: fetches_append sleeps_append sleeps_InsertFailed fetches_InsertFailed)
          apply (auto simp: fetches_def)
          done
      qed
    qed
  qed
qed

lemma retry_loop_no_panic:
  assumes "1 \<le>s attempt" and "CHR ''.'' \<in> set (symbol j)"
  shows "\<exists>s'. retry_loop remote st U F cfg j attempt s = Return s'"
  using assms
proof (induction remote st U F cfg j attempt s rule: retry_loop.induct)
  case (1 remote st U F cfg j attempt s)
  note one = \<open>1 \<le>s attempt\<close> and dot = \<open>CHR ''.'' \<in> set (symbol j)\<close>
  let ?s1 = "s\<lparr>calls := calls s + 1, trace := trace s @ [Fetch j attempt]\<rparr>"
  show ?case
  proof (cases "attempt \<le>s MaxAttempts cfg")
    case False
    then show ?thesis by (subst retry_loop.simps) simp
  next
    case le: True
    show ?thesis
    proof (cases "remote (calls s) j")
      case (Inl err)
      show ?thesis
      proof (cases "attempt <s MaxAttempts cfg")
        case True
        obtain base where b: "backoff_base cfg attempt = Return base"
          using backoff_base_returns [OF one] by blast
        have su: "sint (attempt + 1) = sint attempt + 1"
          using sint_succ [OF True] .
        have one': "1 \<le>s attempt + 1"
          using one su by (simp add: word_sle_eq)
        obtain s' where "retry_loop remote st U F cfg j (attempt + 1)
            (?s1\<lparr>trace := trace ?s1 @
              [Retry attempt err, Sleep (base * Millisecond)]\<rparr>) = Return s'"
          using "1.IH" [OF le refl Inl True b one' dot] by blast
        then show ?thesis
          using le True Inl b by (subst retry_loop.simps) (simp add: Let_def)
      next
        case False
        then show ?thesis
          using le Inl by (subst retry_loop.simps) (simp add: Let_def)
      qed
    next
      case (Inr pts)
      obtain r where "InsertCandlesticks st U (database ?s1) (symbol j)
          (transform F (symbol j) pts) = Return r"
        using InsertCandlesticks_Panic_iff [of st U "database ?s1" "symbol j"
            "transform F (symbol j) pts"] dot
        by (cases "InsertCandlesticks st U (database ?s1) (symbol j)
          (transform F (symbol j) pts)") auto
      then show ?thesis
        using le Inr
        by (subst retry_loop.simps) (auto simp: Let_def split: prod.splits option.splits)
    qed
  qed
qed

lemma retry_loop_all_fail:
  assumes "1 \<le>s attempt" and "attempt \<le>s MaxAttempts cfg"
    and "\<forall>k. int k \<le> sint (MaxAttempts cfg) - sint attempt \<longrightarrow>
           (\<exists>e. remote (calls s + k) j = Inl e)"
  shows "\<exists>s'. retry_loop remote st U F cfg j attempt s = Return s' \<and>
     failCount s' = failCount s + 1 \<and> successCount s' = successCount s \<and>
     database s' = database s \<and>
     int (calls s') = int (calls s) + (sint (MaxAttempts cfg) - sint attempt + 1)"
  using assms
proof (induction remote st U F cfg j attempt s rule: retry_loop.induct)
  case (1 remote st U F cfg j attempt s)
  note one = \<open>1 \<le>s attempt\<close> and le = \<open>attempt \<le>s MaxAttempts cfg\<close>
  note fail = \<open>\<forall>k. int k \<le> sint (MaxAttempts cfg) - sint attempt \<longrightarrow>
           (\<exists>e. remote (calls s + k) j = Inl e)\<close>
  let ?s1 = "s\<lparr>calls := calls s + 1, trace := trace s @ [Fetch j attempt]\<rparr>"
  have room: "0 \<le> sint (MaxAttempts cfg) - sint attempt"
    using le by (simp add: word_sle_eq)
  obtain err where Inl: "remote (calls s) j = Inl err"
    using fail [rule_format, of 0] room by auto
  show ?case
  proof (cases "attempt <s MaxAttempts cfg")
    case True
    obtain base where b: "backoff_base cfg attempt = Return base"
      using backoff_base_returns [OF one] by blast
    let ?s2 = "?s1\<lparr>trace := trace ?s1 @
        [Retry attempt err, Sleep (base * Millisecond)]\<rparr>"
    have su: "sint (attempt + 1) = sint attempt + 1"
      using sint_succ [OF True] .
    have one': "1 \<le>s attempt + 1"
      using one su by (simp add: word_sle_eq)
    have le': "attempt + 1 \<le>s MaxAttempts cfg"
      using True su by (simp add: word_sle_eq word_sless_alt)
    have fail': "\<forall>k. int k \<le> sint (MaxAttempts cfg) - sint (attempt + 1) \<longrightarrow>
           (\<exists>e. remote (calls ?s2 + k) j = Inl e)"
    proof (intro allI impI)
      fix k
      assume "int k \<le> sint (MaxAttempts cfg) - sint (attempt + 1)"
      then have "int (Suc k) \<le> sint (MaxAttempts cfg) - sint attempt"
        using su by simp
      then show "\<exists>e. remote (calls ?s2 + k) j = Inl e"
        using fail [rule_format, of "Suc k"] by simp
    qed
    obtain s' where s': "retry_loop remote st U F cfg j (attempt + 1) ?s2 = Return s'"
      "failCount s' = failCount ?s2 + 1" "successCount s' = successCount ?s2"
      "database s' = database ?s2"
      "int (calls s') = int (calls ?s2) + (sint (MaxAttempts cfg) - sint (attempt + 1) + 1)"
      using "1.IH" [OF le refl Inl True b one' le' fail'] by blast
    have r: "retry_loop remote st U F cfg j attempt s = Return s'"
      using s'(1) le True Inl b by (subst retry_loop.simps) (simp add: Let_def)
    show ?thesis
      apply (rule exI [of _ s'])
      using r s'(2) s'(3) s'(4) s'(5) su apply simp
      done
  next
    case False
    then have "sint (MaxAttempts cfg) - sint attempt = 0"
      using le by (simp add: word_sle_eq word_sless_alt)
    then show ?thesis
      using le False Inl by (subst retry_loop.simps) (simp add: Let_def)
  qed
qed

lemma retry_loop_first_fetch:
  assumes "1 \<le>s attempt" and "attempt \<le>s MaxAttempts cfg"
    and "retry_loop remote st U F cfg j attempt s = Return s'"
  shows "\<exists>rest. trace s' = trace s @ Fetch j attempt # rest"
proof (cases "remote (calls s) j")
  case (Inl err)
  show ?thesis
  proof (cases "attempt <s MaxAttempts cfg")
    case True
    obtain base where b: "backoff_base cfg attempt = Return base"
      using backoff_base_returns [OF assms(1)] by blast
    let ?s1 = "s\<lparr>calls := calls s + 1, trace := trace s @ [Fetch j attempt]\<rparr>"
    let ?s2 = "?s1\<lparr>trace := trace ?s1 @
        [Retry attempt err, Sleep (base * Millisecond)]\<rparr>"
    have rec: "retry_loop remote st U F cfg j (attempt + 1) ?s2 = Return s'"
      using assms True Inl b by (subst (asm) retry_loop.simps) (simp add: Let_def)
    have su: "sint (attempt + 1) = sint attempt + 1"
      using sint_succ [OF True] .
    have one': "1 \<le>s attempt + 1"
      using assms(1) su by (simp add: word_sle_eq)
    have le': "attempt + 1 \<le>s MaxAttempts cfg"
      using True su by (simp add: word_sle_eq word_sless_alt)
    obtain added where "trace s' = trace ?s2 @ added"
      using retry_loop_returns [OF one' le' rec] by blast
    then show ?thesis by simp
  next
    case False
    then show ?thesis
      using assms Inl by (subst (asm) retry_loop.simps) (auto simp: Let_def)
  qed
next
  case (Inr pts)
  then show ?thesis
    using assms
    by (subst (asm) retry_loop.simps)
      (auto simp: Let_def split: go.splits prod.splits option.splits)
qed

lemma MaxAttempts_retryCfg: "MaxAttempts retryCfg = 3"
  by (simp add: retryCfg_def)

lemma backoff_base_1: "backoff_base retryCfg 1 = Return 500"
  by (simp add: backoff_base_def shift_left_def retryCfg_def Let_def word_sless_alt)

lemma backoff_base_2: "backoff_base retryCfg 2 = Return 1000"
  by (simp add: backoff_base_def shift_left_def retryCfg_def Let_def word_sless_alt)

lemma delay_1: "delay retryCfg 1 = 500 * Millisecond"
  by (simp add: delay_def backoff_base_1)

lemma delay_2: "delay retryCfg 2 = 1000 * Millisecond"
  by (simp add: delay_def backoff_base_2)

lemma attempt_1_or_2:
  fixes a :: int64
  assumes "1 \<le>s a" and "a <s 3"
  shows "a = 1 \<or> a = 2"
proof -
  have "1 \<le> sint a" "sint a < 3"
    using assms by (simp_all add: word_sle_eq word_sless_alt)
  then consider "sint a = 1" | "sint a = 2" by arith
  then show ?thesis
  proof cases
    case 1
    then have "word_of_int (sint a) = (word_of_int 1 :: int64)" by simp
    then show ?thesis by simp
  next
    case 2
    then have "word_of_int (sint a) = (word_of_int 2 :: int64)" by simp
    then show ?thesis by simp
  qed
qed

lemma process_job_returns:
  assumes "1 \<le>s MaxAttempts cfg"
    and "process_job remote st U F cfg j s = Return s'"
  shows "\<exists>added. trace s' = trace s @ Admit # Progress (currentTask s + 1) j # Fetch j 1 # added \<and>
     Admit \<notin> set added \<and>
     Suc (fetches added) = calls s' - calls s \<and>
     int (Suc (fetches added)) \<le> sint (MaxAttempts cfg) \<and>
     sleeps added = map (\<lambda>k. delay cfg (1 + of_nat k)) [0..<fetches added] \<and>
     currentTask s' = currentTask s + 1 \<and>
     (successCount s' = successCount s + 1 \<and> failCount s' = failCount s \<or>
      successCount s' = successCount s \<and> failCount s' = failCount s + 1)"
proof -
  let ?s0 = "s\<lparr>currentTask := currentTask s + 1,
      trace := trace s @ [Admit, Progress (currentTask s + 1) j]\<rparr>"
  have run: "retry_loop remote st U F cfg j 1 ?s0 = Return s'"
    using assms(2) by (simp add: process_job_def Let_def)
  have one: "(1 :: int64) \<le>s 1" by simp
  obtain added where a: "trace s' = trace ?s0 @ added" "Admit \<notin> set added"
    "fetches added = calls s' - calls ?s0" "1 \<le> fetches added"
    "int (fetches added) \<le> sint (MaxAttempts cfg) - sint (1 :: int64) + 1"
    "sleeps added = map (\<lambda>k. delay cfg (1 + of_nat k)) [0..<fetches added - 1]"
    "currentTask s' = currentTask ?s0"
    "successCount s' = successCount ?s0 + 1 \<and> failCount s' = failCount ?s0 \<or>
     successCount s' = successCount ?s0 \<and> failCount s' = failCount ?s0 + 1"
    using retry_loop_returns [OF one assms(1) run] by blast
  obtain rest where r: "trace s' = trace ?s0 @ Fetch j 1 # rest"
    using retry_loop_first_fetch [OF one assms(1) run] by blast
  have ar: "added = Fetch j 1 # rest" using a(1) r by simp
  have t: "trace s' = trace s @ Admit # Progress (currentTask s + 1) j # Fetch j 1 # rest"
    using r by simp
  have ad: "Admit \<notin> set rest" using a(2) ar by simp
  have fr: "fetches added = Suc (fetches rest)" using ar by (simp add: fetches_def)
  have c: "Suc (fetches rest) = calls s' - calls s" using a(3) fr by simp
  have bd: "int (Suc (fetches rest)) \<le> sint (MaxAttempts cfg)" using a(5) fr by simp
  have sl: "sleeps rest = map (\<lambda>k. delay cfg (1 + of_nat k)) [0..<fetches rest]"
    using a(6) ar fr by simp
  have ct: "currentTask s' = currentTask s + 1" using a(7) by simp
  have cn: "successCount s' = successCount s + 1 \<and> failCount s' = failCount s \<or>
      successCount s' = successCount s \<and> failCount s' = failCount s + 1"
    using a(8) by simp
  show ?thesis
    by (rule exI [of _ rest]) (intro conjI t ad c bd sl ct cn)
qed

lemma process_job_no_panic:
  assumes "CHR ''.'' \<in> set (symbol j)"
  shows "\<exists>s'. process_job remote st U F cfg j s = Return s'"
  using retry_loop_no_panic [of 1 j remote st U F cfg] assms
  by (simp add: process_job_def Let_def)

lemma worker_counts:
  assumes "1 \<le>s MaxAttempts cfg" and "\<forall>j\<in>set js. CHR ''.'' \<in> set (symbol j)"
  shows "\<exists>s'. worker remote st U F cfg js s = Return s' \<and>
     successCount s' + failCount s' = successCount s + failCount s + of_nat (length js) \<and>
     currentTask s' = currentTask s + of_nat (length js)"
  using assms(2)
proof (induction js arbitrary: s)
  case Nil
  show ?case by simp
next
  case (Cons j js)
  obtain s1 where s1: "process_job remote st U F cfg j s = Return s1"
    using process_job_no_panic [of j remote st U F cfg s] Cons.prems by auto
  have c1: "currentTask s1 = currentTask s + 1"
    and n1: "successCount s1 + failCount s1 = successCount s + failCount s + 1"
    using process_job_returns [OF assms(1) s1] by auto
  obtain s' where s': "worker remote st U F cfg js s1 = Return s'"
    "successCount s' + failCount s' = successCount s1 + failCount s1 + of_nat (length js)"
    "currentTask s' = currentTask s1 + of_nat (length js)"
    using Cons.IH [of s1] Cons.prems by auto
  show ?case
    apply (rule exI [of _ s'])
    using s1 s' c1 n1 apply simp
    done
qed

section \<open>Lemmas on the workers and the run\<close>

lemma ensure_tables_returns:
  assumes "\<forall>symb\<in>set symbols. CHR ''.'' \<in> set symb"
  shows "\<exists>s'. ensure_tables st U symbols s = Return s' \<and>
     successCount s' = successCount s \<and> failCount s' = failCount s \<and>
     currentTask s' = currentTask s \<and> calls s' = calls s"
  using assms
proof (induction symbols arbitrary: s)
  case Nil
  show ?case by simp
next
  case (Cons symb rest)
  obtain err db' where e: "EnsureTable st U (database s) symb = Return (err, db')"
    using EnsureTable_Panic_iff [of st U "database s" symb] Cons.prems
    by (cases "EnsureTable st U (database s) symb") auto
  show ?case
  proof (cases err)
    case None
    then show ?thesis
      using e Cons.IH [of "s\<lparr>database := db'\<rparr>"] Cons.prems by auto
  next
    case (Some x)
    then show ?thesis
      using e Cons.IH [of "s\<lparr>database := db', trace := trace s @ [CreateFailed x]\<rparr>"]
        Cons.prems by auto
  qed
qed

lemma ensure_tables_panics:
  assumes "\<exists>symb\<in>set symbols. CHR ''.'' \<notin> set symb"
  shows "ensure_tables st U symbols s = Panic"
  using assms
proof (induction symbols arbitrary: s)
  case Nil
  then show ?case by simp
next
  case (Cons symb rest)
  show ?case
  proof (cases "CHR ''.'' \<in> set symb")
    case True
    then obtain err db' where e: "EnsureTable st U (database s) symb = Return (err, db')"
      using EnsureTable_Panic_iff [of st U "database s" symb]
      by (cases "EnsureTable st U (database s) symb") auto
    have "\<exists>symb\<in>set rest. CHR ''.'' \<notin> set symb" using Cons.prems True by auto
    then show ?thesis using e Cons.IH by (cases err) auto
  next
    case False
    then have "EnsureTable st U (database s) symb = Panic"
      using EnsureTable_Panic_iff [of st U "database s" symb] by simp
    then show ?thesis by simp
  qed
qed

lemma main_counts:
  assumes "\<forall>symb\<in>set symbols. CHR ''.'' \<in> set symb"
  shows "\<exists>s'. main remote st U F symbols dates db0 = Return s' \<and>
     successCount s' + failCount s' = of_nat (length symbols * length dates) \<and>
     currentTask s' = of_nat (length symbols * length dates)"
proof -
  obtain s0 where s0: "ensure_tables st U symbols (init db0) = Return s0"
    "successCount s0 = 0" "failCount s0 = 0" "currentTask s0 = 0"
    using ensure_tables_returns [OF assms, of st U "init db0"] by (auto simp: init_def)
  obtain jobs where j: "build_jobs symbols dates = Some jobs"
    "map (\<lambda>j. (symbol j, date j)) (buffer jobs) = List.product symbols dates"
    "length (buffer jobs) = length symbols * length dates"
    using build_jobs_queue [of symbols dates] by blast
  have "set (map (\<lambda>j. (symbol j, date j)) (buffer jobs)) \<subseteq> set symbols \<times> set dates"
    using j(2) by simp
  then have dots: "\<forall>j\<in>set (buffer jobs). CHR ''.'' \<in> set (symbol j)"
    using assms by auto
  have m: "(1 :: int64) \<le>s MaxAttempts retryCfg"
    by (simp add: retryCfg_def word_sle_eq)
  obtain s' where s': "worker remote st U F retryCfg (buffer jobs) s0 = Return s'"
    "successCount s' + failCount s' =
       successCount s0 + failCount s0 + of_nat (length (buffer jobs))"
    "currentTask s' = currentTask s0 + of_nat (length (buffer jobs))"
    using worker_counts [OF m dots, of remote st U F s0] by blast
  show ?thesis
    apply (rule exI [of _ s'])
    using s0 j s' apply (simp add: main_def)
    done
qed

lemma main_panics:
  assumes "\<exists>symb\<in>set symbols. CHR ''.'' \<notin> set symb"
  shows "main remote st U F symbols dates db0 = Panic"
  using ensure_tables_panics [OF assms, of st U "init db0"] by (simp add: main_def)

section \<open>Lemmas on a second run\<close>

lemma grows_to_refl: "grows_to db db"
  by (auto simp: grows_to_def split: option.splits)

lemma grows_to_None:
  assumes "grows_to db db'" and "db t = None"
  shows "db' t = None"
  using assms(1) [unfolded grows_to_def, rule_format, of t] assms(2) by simp

lemma grows_to_Some:
  assumes "grows_to db db'" and "db t = Some rows"
  shows "\<exists>added. db' t = Some (rows @ added)"
  using assms(1) [unfolded grows_to_def, rule_format, of t] assms(2) by simp

lemma grows_to_trans:
  assumes "grows_to a b" and "grows_to b c"
  shows "grows_to a c"
  unfolding grows_to_def
proof
  fix t
  show "case a t of None \<Rightarrow> c t = None | Some rows \<Rightarrow> \<exists>added. c t = Some (rows @ added)"
  proof (cases "a t")
    case None
    then have "b t = None" using assms(1) by (rule grows_to_None [rotated])
    then have "c t = None" using assms(2) by (rule grows_to_None [rotated])
    then show ?thesis using None by simp
  next
    case (Some rows)
    then obtain x where x: "b t = Some (rows @ x)"
      using grows_to_Some [OF assms(1)] by blast
    then obtain y where "c t = Some ((rows @ x) @ y)"
      using grows_to_Some [OF assms(2)] by blast
    then have "c t = Some (rows @ (x @ y))" by simp
    then show ?thesis using Some by auto
  qed
qed

lemma insert_on_conflict_grows_to:
  "grows_to db (insert_on_conflict_do_nothing t r db)"
  by (auto simp: grows_to_def insert_on_conflict_do_nothing_def split: option.splits)

lemma insert_loop_grows_to: "grows_to db (fst (insert_loop st t cs (db, lg)))"
proof (induction cs arbitrary: db lg)
  case Nil
  show ?case by (simp add: grows_to_refl)
next
  case (Cons c cs)
  show ?case
  proof (cases "exec_err st t (row_of c)")
    case None
    have "grows_to db (insert_on_conflict_do_nothing t (row_of c) db)"
      by (rule insert_on_conflict_grows_to)
    then show ?thesis
      using None Cons.IH [of "insert_on_conflict_do_nothing t (row_of c) db" lg]
      by (auto intro: grows_to_trans)
  next
    case (Some e)
    then show ?thesis using Cons.IH [of db "lg @ [e]"] by simp
  qed
qed

lemma InsertCandlesticks_grows_to:
  assumes "InsertCandlesticks st U db symb cs = Return (err, db', lg)"
  shows "grows_to db db'"
proof -
  obtain name where n: "safeTableName U symb = Return name"
    using assms by (cases "safeTableName U symb") (auto simp: InsertCandlesticks_def)
  show ?thesis
  proof (cases "Prepare st db name")
    case (Some e)
    then have "db' = db" using assms n by (simp add: InsertCandlesticks_def)
    then show ?thesis by (simp add: grows_to_refl)
  next
    case None
    then have "db' = fst (insert_loop st name cs (db, []))"
      using assms n by (auto simp: InsertCandlesticks_def split: prod.splits)
    then show ?thesis by (simp add: insert_loop_grows_to)
  qed
qed

lemma InsertCandlesticks_settled:
  assumes run: "InsertCandlesticks st U db symb cs = Return (err, db', lg)"
    and g: "grows_to db' D"
  shows "\<exists>err2 lg2. InsertCandlesticks st U D symb cs = Return (err2, D, lg2)"
proof -
  obtain name where n: "safeTableName U symb = Return name"
    using run by (cases "safeTableName U symb") (auto simp: InsertCandlesticks_def)
  show ?thesis
  proof (cases "Prepare st db name")
    case (Some e)
    then have same: "db' = db" using run n by (simp add: InsertCandlesticks_def)
    have "\<exists>e2. Prepare st D name = Some e2"
    proof (cases "db name")
      case None
      then have "D name = None" using g same grows_to_None by metis
      then show ?thesis by (simp add: Prepare_def)
    next
      case (Some rows)
      then have pe: "prepare_err st name = Some e"
        using \<open>Prepare st db name = Some e\<close> by (simp add: Prepare_def)
      show ?thesis using pe by (cases "D name") (auto simp: Prepare_def)
    qed
    then show ?thesis using n by (auto simp: InsertCandlesticks_def)
  next
    case None
    obtain db1 rows added where r:
      "InsertCandlesticks st U db symb cs =
         Return (None, db1, List.map_filter (\<lambda>c. exec_err st name (row_of c)) cs)"
      "db1 name = Some (rows @ added)"
      "\<forall>c\<in>set cs. exec_err st name (row_of c) = None \<longrightarrow>
         Timestamp c \<in> set (map col_timestamp (rows @ added))"
      using InsertCandlesticks_run [OF n None, of cs] by blast
    have pe: "prepare_err st name = None"
      using None by (auto simp: Prepare_def split: option.splits)
    have "db1 = db'" using r(1) run by simp
    then obtain more where m: "D name = Some ((rows @ added) @ more)"
      using g r(2) grows_to_Some by metis
    have cov: "\<forall>c\<in>set cs. exec_err st name (row_of c) = None \<longrightarrow>
         Timestamp c \<in> set (map col_timestamp ((rows @ added) @ more))"
      using r(3) by auto
    have p: "Prepare st D name = None" using m pe by (simp add: Prepare_def)
    have "fst (insert_loop st name cs (D, [])) = D"
      using insert_loop_noop [where db = D and t = name and rows = "(rows @ added) @ more"
          and st = st and cs = cs and lg = "[]"] m cov by blast
    then have "insert_loop st name cs (D, []) = (D, snd (insert_loop st name cs (D, [])))"
      by (simp add: prod_eq_iff)
    then show ?thesis using n p by (auto simp: InsertCandlesticks_def split: prod.splits)
  qed
qed

lemma retry_loop_grows_to:
  assumes "retry_loop remote st U F cfg j attempt s = Return s'"
  shows "grows_to (database s) (database s')"
  using assms
proof (induction remote st U F cfg j attempt s rule: retry_loop.induct)
  case (1 remote st U F cfg j attempt s)
  note run = \<open>retry_loop remote st U F cfg j attempt s = Return s'\<close>
  let ?s1 = "s\<lparr>calls := calls s + 1, trace := trace s @ [Fetch j attempt]\<rparr>"
  show ?case
  proof (cases "attempt \<le>s MaxAttempts cfg")
    case False
    then have "s' = s" using run by (subst (asm) retry_loop.simps) simp
    then show ?thesis by (simp add: grows_to_refl)
  next
    case le: True
    show ?thesis
    proof (cases "remote (calls s) j")
      case (Inl err)
      show ?thesis
      proof (cases "attempt <s MaxAttempts cfg")
        case True
        show ?thesis
        proof (cases "backoff_base cfg attempt")
          case Panic
          then have "retry_loop remote st U F cfg j attempt s = Panic"
            using le True Inl by (subst retry_loop.simps) (simp add: Let_def)
          then show ?thesis using run by simp
        next
          case (Return base)
          let ?s2 = "?s1\<lparr>trace := trace ?s1 @
              [Retry attempt err, Sleep (base * Millisecond)]\<rparr>"
          have rec: "retry_loop remote st U F cfg j (attempt + 1) ?s2 = Return s'"
            using run le True Inl Return
            by (subst (asm) retry_loop.simps) (simp add: Let_def)
          show ?thesis
            using "1.IH" [OF le refl Inl True Return rec] by simp
        qed
      next
        case False
        then have "s' = ?s1\<lparr>failCount := failCount ?s1 + 1,
            trace := trace ?s1 @ [Failed err]\<rparr>"
          using run le Inl by (subst (asm) retry_loop.simps) (simp add: Let_def)
        then show ?thesis by (simp add: grows_to_refl)
      qed
    next
      case (Inr pts)
      let ?records = "transform F (symbol j) pts"
      show ?thesis
      proof (cases "InsertCandlesticks st U (database s) (symbol j) ?records")
        case Panic
        then have "retry_loop remote st U F cfg j attempt s = Panic"
          using le Inr by (subst retry_loop.simps) (simp add: Let_def)
        then show ?thesis using run by simp
      next
        case (Return r)
        obtain err db' lg where r: "r = (err, db', lg)" by (cases r)
        have "database s' = db'"
          using run le Inr Return r
          by (subst (asm) retry_loop.simps) (auto simp: Let_def split: option.splits)
        then show ?thesis
          using InsertCandlesticks_grows_to [of st U "database s" "symbol j" ?records err db' lg]
            Return r by simp
      qed
    qed
  qed
qed

lemma retry_loop_rerun:
  assumes "retry_loop remote st U F cfg j attempt s = Return s'"
    and "grows_to (database s') D" and "calls s2 = calls s" and "database s2 = D"
  shows "\<exists>s2'. retry_loop remote st U F cfg j attempt s2 = Return s2' \<and>
     database s2' = D \<and> calls s2' = calls s'"
  using assms
proof (induction remote st U F cfg j attempt s arbitrary: s2 rule: retry_loop.induct)
  case (1 remote st U F cfg j attempt s)
  note run = \<open>retry_loop remote st U F cfg j attempt s = Return s'\<close>
  note g = \<open>grows_to (database s') D\<close> and c = \<open>calls s2 = calls s\<close>
    and d = \<open>database s2 = D\<close>
  let ?s1 = "s\<lparr>calls := calls s + 1, trace := trace s @ [Fetch j attempt]\<rparr>"
  let ?t1 = "s2\<lparr>calls := calls s2 + 1, trace := trace s2 @ [Fetch j attempt]\<rparr>"
  show ?case
  proof (cases "attempt \<le>s MaxAttempts cfg")
    case False
    then have "s' = s" using run by (subst (asm) retry_loop.simps) simp
    then show ?thesis
      using False c d by (subst retry_loop.simps) simp
  next
    case le: True
    show ?thesis
    proof (cases "remote (calls s) j")
      case (Inl err)
      show ?thesis
      proof (cases "attempt <s MaxAttempts cfg")
        case True
        show ?thesis
        proof (cases "backoff_base cfg attempt")
          case Panic
          then have "retry_loop remote st U F cfg j attempt s = Panic"
            using le True Inl by (subst retry_loop.simps) (simp add: Let_def)
          then show ?thesis using run by simp
        next
          case (Return base)
          let ?s2 = "?s1\<lparr>trace := trace ?s1 @
              [Retry attempt err, Sleep (base * Millisecond)]\<rparr>"
          let ?t2 = "?t1\<lparr>trace := trace ?t1 @
              [Retry attempt err, Sleep (base * Millisecond)]\<rparr>"
          have rec: "retry_loop remote st U F cfg j (attempt + 1) ?s2 = Return s'"
            using run le True Inl Return
            by (subst (asm) retry_loop.simps) (simp add: Let_def)
          have c': "calls ?t2 = calls ?s2" using c by simp
          have d': "database ?t2 = D" using d by simp
          obtain s2' where s2': "retry_loop remote st U F cfg j (attempt + 1) ?t2 = Return s2'"
            "database s2' = D" "calls s2' = calls s'"
            using "1.IH" [OF le refl Inl True Return rec g c' d'] by blast
          have "retry_loop remote st U F cfg j attempt s2 = Return s2'"
            using s2'(1) le True Inl Return c
            by (subst retry_loop.simps) (simp add: Let_def)
          then show ?thesis using s2'(2) s2'(3) by blast
        qed
      next
        case False
        then have s': "s' = ?s1\<lparr>failCount := failCount ?s1 + 1,
            trace := trace ?s1 @ [Failed err]\<rparr>"
          using run le Inl by (subst (asm) retry_loop.simps) (simp add: Let_def)
        have "retry_loop remote st U F cfg j attempt s2 =
            Return (?t1\<lparr>failCount := failCount ?t1 + 1, trace := trace ?t1 @ [Failed err]\<rparr>)"
          using le False Inl c by (subst retry_loop.simps) (simp add: Let_def)
        then show ?thesis using s' c d by simp
      qed
    next
      case (Inr pts)
      let ?records = "transform F (symbol j) pts"
      show ?thesis
      proof (cases "InsertCandlesticks st U (database s) (symbol j) ?records")
        case Panic
        then have "retry_loop remote st U F cfg j attempt s = Panic"
          using le Inr by (subst retry_loop.simps) (simp add: Let_def)
        then show ?thesis using run by simp
      next
        case (Return r)
        obtain err db' lg where r: "r = (err, db', lg)" by (cases r)
        have s': "database s' = db' \<and> calls s' = calls s + 1"
          using run le Inr Return r
          by (subst (asm) retry_loop.simps) (auto simp: Let_def split: option.splits)
        have g': "grows_to db' D" using g s' by simp
        obtain err2 lg2 where i2:
          "InsertCandlesticks st U D (symbol j) ?records = Return (err2, D, lg2)"
          using InsertCandlesticks_settled [of st U "database s" "symbol j" ?records
              err db' lg D] Return r g' by auto
        have "\<exists>s2'. retry_loop remote st U F cfg j attempt s2 = Return s2' \<and>
            database s2' = D \<and> calls s2' = calls s2 + 1"
          using le Inr c d i2
          by (subst retry_loop.simps) (cases err2; simp add: Let_def)
        then show ?thesis using s' c by auto
      qed
    qed
  qed
qed

lemma process_job_grows_to:
  assumes "process_job remote st U F cfg j s = Return s'"
  shows "grows_to (database s) (database s')"
proof -
  let ?s0 = "s\<lparr>currentTask := currentTask s + 1,
      trace := trace s @ [Admit, Progress (currentTask s + 1) j]\<rparr>"
  have "retry_loop remote st U F cfg j 1 ?s0 = Return s'"
    using assms by (simp add: process_job_def Let_def)
  from retry_loop_grows_to [OF this] show ?thesis by simp
qed

lemma process_job_rerun:
  assumes "process_job remote st U F cfg j s = Return s'"
    and "grows_to (database s') D" and "calls s2 = calls s" and "database s2 = D"
  shows "\<exists>s2'. process_job remote st U F cfg j s2 = Return s2' \<and>
     database s2' = D \<and> calls s2' = calls s'"
proof -
  let ?s0 = "s\<lparr>currentTask := currentTask s + 1,
      trace := trace s @ [Admit, Progress (currentTask s + 1) j]\<rparr>"
  let ?t0 = "s2\<lparr>currentTask := currentTask s2 + 1,
      trace := trace s2 @ [Admit, Progress (currentTask s2 + 1) j]\<rparr>"
  have run: "retry_loop remote st U F cfg j 1 ?s0 = Return s'"
    using assms(1) by (simp add: process_job_def Let_def)
  have c: "calls ?t0 = calls ?s0" using assms(3) by simp
  have d: "database ?t0 = D" using assms(4) by simp
  show ?thesis
    using retry_loop_rerun [OF run assms(2) c d] by (simp add: process_job_def Let_def)
qed

lemma worker_grows_to:
  assumes "worker remote st U F cfg js s = Return s'"
  shows "grows_to (database s) (database s')"
  using assms
proof (induction js arbitrary: s)
  case Nil
  then show ?case by (simp add: grows_to_refl)
next
  case (Cons j js)
  obtain s1 where s1: "process_job remote st U F cfg j s = Return s1"
    and w: "worker remote st U F cfg js s1 = Return s'"
    using Cons.prems by (cases "process_job remote st U F cfg j s") auto
  show ?case
    using grows_to_trans [OF process_job_grows_to [OF s1] Cons.IH [OF w]] .
qed

lemma worker_rerun:
  assumes "worker remote st U F cfg js s = Return s'"
    and "grows_to (database s') D" and "calls s2 = calls s" and "database s2 = D"
  shows "\<exists>s2'. worker remote st U F cfg js s2 = Return s2' \<and> database s2' = D"
  using assms
proof (induction js arbitrary: s s2)
  case Nil
  then show ?case by simp
next
  case (Cons j js)
  obtain s1 where s1: "process_job remote st U F cfg j s = Return s1"
    and w: "worker remote st U F cfg js s1 = Return s'"
    using Cons.prems(1) by (cases "process_job remote st U F cfg j s") auto
  have g1: "grows_to (database s1) D"
    using grows_to_trans [OF worker_grows_to [OF w] Cons.prems(2)] .
  obtain t1 where t1: "process_job remote st U F cfg j s2 = Return t1"
    "database t1 = D" "calls t1 = calls s1"
    using process_job_rerun [OF s1 g1 Cons.prems(3) Cons.prems(4)] by blast
  obtain s2' where "worker remote st U F cfg js t1 = Return s2'" "database s2' = D"
    using Cons.IH [OF w Cons.prems(2) t1(3) t1(2)] by blast
  then show ?case using t1(1) by simp
qed

lemma ensure_tables_created:
  assumes "ensure_tables st U symbols s = Return s'"
  shows "calls s' = calls s \<and>
     (\<forall>t. database s t \<noteq> None \<longrightarrow> database s' t \<noteq> None) \<and>
     (\<forall>symb\<in>set symbols. \<forall>name. safeTableName U symb = Return name \<longrightarrow>
        create_err st name = None \<longrightarrow> database s' name \<noteq> None)"
  using assms
proof (induction symbols arbitrary: s)
  case Nil
  then show ?case by simp
next
  case (Cons symb rest)
  obtain name where n: "safeTableName U symb = Return name"
    using Cons.prems
    by (cases "safeTableName U symb") (auto simp: EnsureTable_def)
  show ?case
  proof (cases "create_err st name")
    case (Some e)
    let ?s1 = "s\<lparr>trace := trace s @ [CreateFailed e]\<rparr>"
    have "ensure_tables st U rest ?s1 = Return s'"
      using Cons.prems n Some by (simp add: EnsureTable_def)
    from Cons.IH [OF this] show ?thesis using n Some by auto
  next
    case None
    let ?s1 = "s\<lparr>database := create_table_if_not_exists name (database s)\<rparr>"
    have "ensure_tables st U rest ?s1 = Return s'"
      using Cons.prems n None by (simp add: EnsureTable_def)
    from Cons.IH [OF this] have ih: "calls s' = calls ?s1"
      "\<forall>t. database ?s1 t \<noteq> None \<longrightarrow> database s' t \<noteq> None"
      "\<forall>symb\<in>set rest. \<forall>name. safeTableName U symb = Return name \<longrightarrow>
        create_err st name = None \<longrightarrow> database s' name \<noteq> None"
      by auto
    have here: "database ?s1 name \<noteq> None"
      by (simp add: create_table_if_not_exists_def split: option.splits)
    have keep: "\<forall>t. database s t \<noteq> None \<longrightarrow> database ?s1 t \<noteq> None"
      by (auto simp: create_table_if_not_exists_def split: option.splits)
    show ?thesis using ih here keep n by auto
  qed
qed

lemma ensure_tables_settled:
  assumes "\<forall>symb\<in>set symbols. CHR ''.'' \<in> set symb"
    and "\<forall>symb\<in>set symbols. \<forall>name. safeTableName U symb = Return name \<longrightarrow>
        create_err st name = None \<longrightarrow> database s name \<noteq> None"
  shows "\<exists>s'. ensure_tables st U symbols s = Return s' \<and>
     database s' = database s \<and> calls s' = calls s"
  using assms
proof (induction symbols arbitrary: s)
  case Nil
  then show ?case by simp
next
  case (Cons symb rest)
  obtain name where n: "safeTableName U symb = Return name"
    using Cons.prems(1) safeTableName_Panic_iff [of U symb]
    by (cases "safeTableName U symb") auto
  show ?case
  proof (cases "create_err st name")
    case (Some e)
    let ?s1 = "s\<lparr>trace := trace s @ [CreateFailed e]\<rparr>"
    have "\<exists>s'. ensure_tables st U rest ?s1 = Return s' \<and>
        database s' = database ?s1 \<and> calls s' = calls ?s1"
      using Cons.IH [of ?s1] Cons.prems by simp
    then show ?thesis using n Some by (simp add: EnsureTable_def)
  next
    case None
    then have "database s name \<noteq> None" using Cons.prems(2) n by simp
    then have same: "create_table_if_not_exists name (database s) = database s"
      by (auto simp: create_table_if_not_exists_def)
    have "\<exists>s'. ensure_tables st U rest s = Return s' \<and>
        database s' = database s \<and> calls s' = calls s"
      using Cons.IH [of s] Cons.prems by simp
    then show ?thesis using n None same by (simp add: EnsureTable_def)
  qed
qed

lemma main_rerun:
  assumes "main remote st U F symbols dates db0 = Return s1"
  shows "\<exists>s2. main remote st U F symbols dates (database s1) = Return s2 \<and>
     database s2 = database s1"
proof -
  obtain s0 where s0: "ensure_tables st U symbols (init db0) = Return s0"
    using assms by (cases "ensure_tables st U symbols (init db0)") (auto simp: main_def)
  obtain jobs where j: "build_jobs symbols dates = Some jobs"
    using build_jobs_queue [of symbols dates] by blast
  have w: "worker remote st U F retryCfg (buffer jobs) s0 = Return s1"
    using assms s0 j by (simp add: main_def)
  have dots: "\<forall>symb\<in>set symbols. CHR ''.'' \<in> set symb"
    using s0 ensure_tables_panics [of symbols st U "init db0"] by auto
  have c0: "calls s0 = 0"
    using ensure_tables_created [OF s0] by (simp add: init_def)
  have made: "\<forall>symb\<in>set symbols. \<forall>name. safeTableName U symb = Return name \<longrightarrow>
        create_err st name = None \<longrightarrow> database s0 name \<noteq> None"
    using ensure_tables_created [OF s0] by blast
  have g: "grows_to (database s0) (database s1)"
    using worker_grows_to [OF w] .
  have made1: "\<forall>symb\<in>set symbols. \<forall>name. safeTableName U symb = Return name \<longrightarrow>
        create_err st name = None \<longrightarrow> database (init (database s1)) name \<noteq> None"
  proof (intro ballI allI impI)
    fix symb name
    assume "symb \<in> set symbols" "safeTableName U symb = Return name"
      "create_err st name = None"
    then obtain rows where "database s0 name = Some rows" using made by auto
    then obtain added where "database s1 name = Some (rows @ added)"
      using grows_to_Some [OF g] by blast
    then show "database (init (database s1)) name \<noteq> None" by (simp add: init_def)
  qed
  obtain t0 where t0: "ensure_tables st U symbols (init (database s1)) = Return t0"
    "database t0 = database s1" "calls t0 = calls s0"
    using ensure_tables_settled [OF dots made1] c0 by (auto simp: init_def)
  obtain s2 where "worker remote st U F retryCfg (buffer jobs) t0 = Return s2"
    "database s2 = database s1"
    using worker_rerun [OF w grows_to_refl t0(3) t0(2)] by blast
  then show ?thesis using t0(1) j by (simp add: main_def)
qed

section \<open>Lemmas on the example runs\<close>

lemma name_AAPL: "safeTableName id ''AAPL.US'' = Return ''aapl_us''"
  by code_simp

lemma name_seq_AAPL: "tableName_seq id ''AAPL.US'' = Return ''aapl''"
  by code_simp

lemma run_fail_once:
  "process_job remote_fail_once no_faults id id retryCfg ex_job (init ex_db) =
     Return \<lparr>database = ex_db, calls = 2, currentTask = 1, successCount = 1, failCount = 0,
       trace = [Admit, Progress 1 ex_job, Fetch ex_job 1, Retry 1 ''timeout'',
         Sleep 500000000, Fetch ex_job 2, Done 0]\<rparr>"
  by (simp add: process_job_def init_def retry_loop.simps remote_fail_once_def retryCfg_def
      backoff_base_def shift_left_def Millisecond_def Let_def word_sless_alt word_sle_eq
      transform_def InsertCandlesticks_def ex_job_def name_AAPL Prepare_def ex_db_def
      no_faults_def)

lemma one_le_MaxAttempts: "(1 :: int64) \<le>s MaxAttempts retryCfg"
  by (simp add: retryCfg_def word_sle_eq)

lemma process_job_all_fail:
  assumes "\<forall>k<3. \<exists>e. remote (calls s + k) j = Inl e"
  shows "\<exists>s'. process_job remote st U F retryCfg j s = Return s' \<and>
     failCount s' = failCount s + 1 \<and> successCount s' = successCount s \<and>
     database s' = database s \<and> calls s' = calls s + 3"
proof -
  let ?s0 = "s\<lparr>currentTask := currentTask s + 1,
      trace := trace s @ [Admit, Progress (currentTask s + 1) j]\<rparr>"
  have one: "(1 :: int64) \<le>s 1" by simp
  have f: "\<forall>k. int k \<le> sint (MaxAttempts retryCfg) - sint (1 :: int64) \<longrightarrow>
           (\<exists>e. remote (calls ?s0 + k) j = Inl e)"
    using assms by (simp add: MaxAttempts_retryCfg)
  obtain s' where s': "retry_loop remote st U F retryCfg j 1 ?s0 = Return s'"
    "failCount s' = failCount ?s0 + 1" "successCount s' = successCount ?s0"
    "database s' = database ?s0"
    "int (calls s') = int (calls ?s0) + (sint (MaxAttempts retryCfg) - sint (1 :: int64) + 1)"
    using retry_loop_all_fail [where attempt = 1 and cfg = retryCfg and remote = remote
        and s = ?s0 and j = j and st = st and U = U and F = F] one one_le_MaxAttempts f
    by blast
  have c: "calls s' = calls s + 3"
    using s'(5) by (simp add: MaxAttempts_retryCfg)
  show ?thesis
    apply (rule exI [of _ s'])
    using s' c apply (simp add: process_job_def Let_def)
    done
qed

section \<open>Table names: the claims\<close>

text \<open>
  Claim C10. A symbol without a dot makes \<open>safeTableName\<close> panic, at the index 1 of a
  split result of length 1, and with it \<open>EnsureTable\<close> and \<open>InsertCandlesticks\<close>, which
  call it first. A symbol with a dot never does: each of the three functions panics
  exactly on the symbols that contain no dot, and returns on all others.
\<close>

theorem table_name_panics_without_dot:
  "(safeTableName U symb = Panic) = (CHR ''.'' \<notin> set symb) \<and>
   (EnsureTable st U db symb = Panic) = (CHR ''.'' \<notin> set symb) \<and>
   (InsertCandlesticks st U db symb cs = Panic) = (CHR ''.'' \<notin> set symb)"
  by (intro conjI safeTableName_Panic_iff EnsureTable_Panic_iff InsertCandlesticks_Panic_iff)

text \<open>
  Claim C3, as amended. For a symbol \<open>base.region\<close> with no dot inside \<open>base\<close> or
  \<open>region\<close>, \<open>safeTableName\<close> returns the lower-cased base, an underscore and the
  lower-cased region; \<open>EnsureTable\<close> and \<open>InsertCandlesticks\<close> of the concurrent
  program return and leave every table of another name as it was, and a successful
  \<open>EnsureTable\<close> leaves a table of that name in the database. \<open>AAPL.US\<close> gives
  \<open>aapl_us\<close> and \<open>0700.HK\<close> gives \<open>0700_hk\<close>.
\<close>

theorem safeTableName_base_region:
  assumes "CHR ''.'' \<notin> set base" and "CHR ''.'' \<notin> set region"
  shows "safeTableName U (base @ ''.'' @ region) =
      Return (ToLower U base @ ''_'' @ ToLower U region) \<and>
    (\<exists>err db'. EnsureTable st U db (base @ ''.'' @ region) = Return (err, db') \<and>
       (\<forall>t. t \<noteq> ToLower U base @ ''_'' @ ToLower U region \<longrightarrow> db' t = db t) \<and>
       (err = None \<longrightarrow> db' (ToLower U base @ ''_'' @ ToLower U region) \<noteq> None)) \<and>
    (\<exists>err db' lg.
       InsertCandlesticks st U db (base @ ''.'' @ region) cs = Return (err, db', lg) \<and>
       (\<forall>t. t \<noteq> ToLower U base @ ''_'' @ ToLower U region \<longrightarrow> db' t = db t)) \<and>
    safeTableName U ''AAPL.US'' = Return ''aapl_us'' \<and>
    safeTableName U ''0700.HK'' = Return ''0700_hk''"
proof -
  let ?n = "ToLower U base @ ''_'' @ ToLower U region"
  have n: "safeTableName U (base @ ''.'' @ region) = Return ?n"
    using assms by (simp add: safeTableName_def index_def Split_append Split_no_sep)
  have e: "\<exists>err db'. EnsureTable st U db (base @ ''.'' @ region) = Return (err, db') \<and>
       (\<forall>t. t \<noteq> ?n \<longrightarrow> db' t = db t) \<and> (err = None \<longrightarrow> db' ?n \<noteq> None)"
    using n by (auto simp: EnsureTable_def create_table_if_not_exists_def split: option.splits)
  have i: "\<exists>err db' lg.
       InsertCandlesticks st U db (base @ ''.'' @ region) cs = Return (err, db', lg) \<and>
       (\<forall>t. t \<noteq> ?n \<longrightarrow> db' t = db t)"
  proof (cases "Prepare st db ?n")
    case (Some err)
    then show ?thesis using n by (simp add: InsertCandlesticks_def)
  next
    case None
    obtain db' lg where l: "insert_loop st ?n cs (db, []) = (db', lg)"
      by (cases "insert_loop st ?n cs (db, [])")
    have "\<forall>t. t \<noteq> ?n \<longrightarrow> db' t = db t"
      using insert_loop_other [of _ ?n st cs db "[]"] l by simp
    then show ?thesis using n None l by (simp add: InsertCandlesticks_def)
  qed
  have x1: "safeTableName U ''AAPL.US'' = Return ''aapl_us''" by code_simp
  have x2: "safeTableName U ''0700.HK'' = Return ''0700_hk''" by code_simp
  show ?thesis using n e i x1 x2 by blast
qed

theorem safeTableName_base_region_witness:
  "CHR ''.'' \<notin> set ''TSLA'' \<and> CHR ''.'' \<notin> set ''US'' \<and>
   safeTableName id (''TSLA'' @ ''.'' @ ''US'') = Return ''tsla_us''"
proof -
  have h1: "CHR ''.'' \<notin> set ''TSLA''" by simp
  have h2: "CHR ''.'' \<notin> set ''US''" by simp
  have l: "ToLower id ''TSLA'' @ ''_'' @ ToLower id ''US'' = ''tsla_us''" by code_simp
  have "safeTableName id (''TSLA'' @ ''.'' @ ''US'') =
      Return (ToLower id ''TSLA'' @ ''_'' @ ToLower id ''US'')"
    using safeTableName_base_region [OF h1 h2, of id no_faults Map.empty "[]"]
    by (rule conjunct1)
  then show ?thesis using h1 h2 l by simp
qed

text \<open>
  The claim as it was stated fails in the sequential program: there \<open>AAPL.US\<close> is
  stored in the table \<open>aapl\<close>, not the name \<open>safeTableName\<close> gives. And
  \<open>safeTableName\<close> itself reads only the first two pieces of a symbol: \<open>BRK.A.US\<close>
  gives \<open>brk_a\<close>, whichever of its dots is taken to separate base and region.
\<close>

theorem tableName_seq_counterexample:
  "tableName_seq id ''AAPL.US'' = Return ''aapl'' \<and>
   tableName_seq id ''AAPL.US'' \<noteq> safeTableName id ''AAPL.US'' \<and>
   safeTableName id ''BRK.A.US'' = Return ''brk_a''"
  by code_simp

section \<open>The persistence writer: the claims\<close>

text \<open>
  Claim C1. \<open>InsertCandlesticks\<close> is idempotent. In the concurrent program, on a symbol
  that has a table name, a run returns, and a second run over the same records on the
  database the first one left returns the same error, the same database and the same
  log lines: it adds no row. Every row that was in a table before is still there, in
  its place, followed by the rows added; tables whose timestamps were distinct still
  have distinct timestamps; and the log holds only the errors of the inserts the store
  refused, none for a record whose timestamp was there already. In the sequential
  program, which asks for the timestamp before it inserts, a second run leaves the
  database of the first as well, with the same two properties of the rows. And a
  second run of the whole concurrent program, against the same answers of the quote
  service, on the database the first run ended with, ends with that same database.
\<close>

theorem InsertCandlesticks_idempotent:
  assumes "safeTableName U symb = Return name"
  shows "(\<exists>err db1 lg.
      InsertCandlesticks st U db symb cs = Return (err, db1, lg) \<and>
      InsertCandlesticks st U db1 symb cs = Return (err, db1, lg) \<and>
      (\<forall>t rows. db t = Some rows \<longrightarrow> (\<exists>added. db1 t = Some (rows @ added))) \<and>
      ((\<forall>t rows. db t = Some rows \<longrightarrow> distinct (map col_timestamp rows)) \<longrightarrow>
       (\<forall>t rows. db1 t = Some rows \<longrightarrow> distinct (map col_timestamp rows))) \<and>
      lg = (if err = None then List.map_filter (\<lambda>c. exec_err st name (row_of c)) cs else [])) \<and>
    (\<exists>err db1 lg lg2.
      InsertCandlesticks_seq st U db symb cs = Return (err, db1, lg) \<and>
      InsertCandlesticks_seq st U db1 symb cs = Return (err, db1, lg2) \<and>
      (\<forall>t rows. db t = Some rows \<longrightarrow> (\<exists>added. db1 t = Some (rows @ added))) \<and>
      ((\<forall>t rows. db t = Some rows \<longrightarrow> distinct (map col_timestamp rows)) \<longrightarrow>
       (\<forall>t rows. db1 t = Some rows \<longrightarrow> distinct (map col_timestamp rows)))) \<and>
    (\<forall>s1. main remote st U F symbols dates db0 = Return s1 \<longrightarrow>
       (\<exists>s2. main remote st U F symbols dates (database s1) = Return s2 \<and>
          database s2 = database s1))"
proof -
  have whole: "\<forall>s1. main remote st U F symbols dates db0 = Return s1 \<longrightarrow>
       (\<exists>s2. main remote st U F symbols dates (database s1) = Return s2 \<and>
          database s2 = database s1)"
    using main_rerun [of remote st U F symbols dates db0] by blast
  show ?thesis
    by (intro conjI InsertCandlesticks_conc_idempotent [OF assms]
        InsertCandlesticks_seq_idempotent whole)
qed

theorem InsertCandlesticks_idempotent_witness:
  "safeTableName id ''AAPL.US'' = Return ''aapl_us'' \<and>
   (\<exists>db1. InsertCandlesticks no_faults id ex_db ''AAPL.US'' ex_candles = Return (None, db1, []) \<and>
      InsertCandlesticks no_faults id db1 ''AAPL.US'' ex_candles = Return (None, db1, []))"
proof -
  have h: "safeTableName id ''AAPL.US'' = Return ''aapl_us''" by code_simp
  have p: "Prepare no_faults ex_db ''aapl_us'' = None"
    by (simp add: Prepare_def ex_db_def no_faults_def)
  have "\<exists>err db1 lg.
      InsertCandlesticks no_faults id ex_db ''AAPL.US'' ex_candles = Return (err, db1, lg) \<and>
      InsertCandlesticks no_faults id db1 ''AAPL.US'' ex_candles = Return (err, db1, lg) \<and>
      (\<forall>t rows. ex_db t = Some rows \<longrightarrow> (\<exists>added. db1 t = Some (rows @ added))) \<and>
      ((\<forall>t rows. ex_db t = Some rows \<longrightarrow> distinct (map col_timestamp rows)) \<longrightarrow>
       (\<forall>t rows. db1 t = Some rows \<longrightarrow> distinct (map col_timestamp rows))) \<and>
      lg = (if err = None
            then List.map_filter (\<lambda>c. exec_err no_faults ''aapl_us'' (row_of c)) ex_candles
            else [])"
    using InsertCandlesticks_idempotent [OF h, of no_faults ex_db ex_candles]
    by (rule conjunct1)
  then obtain err db1 lg where r:
    "InsertCandlesticks no_faults id ex_db ''AAPL.US'' ex_candles = Return (err, db1, lg)"
    "InsertCandlesticks no_faults id db1 ''AAPL.US'' ex_candles = Return (err, db1, lg)"
    "lg = (if err = None
            then List.map_filter (\<lambda>c. exec_err no_faults ''aapl_us'' (row_of c)) ex_candles
            else [])"
    by blast
  have e: "err = None"
    using r(1) h p by (simp add: InsertCandlesticks_def split: prod.splits)
  have "lg = []"
    using r(3) e by (simp add: no_faults_def ex_candles_def List.map_filter_simps)
  then show ?thesis using h r(1) r(2) e by blast
qed

text \<open>
  Claim C8. In \<open>InsertCandlesticks\<close> of the concurrent program, when the statement is
  prepared, every record is executed: the function returns no error whatever the
  number of inserts the store refuses, logs one line for each of them, and every
  record the store does not refuse has its timestamp in the table afterwards. When
  the statement cannot be prepared, that error is returned and the database is as it
  was. In the worker, the returned error ends the job as failed after this one fetch
  (the failure counter goes up by one, no further attempt), while refused rows leave
  the job a success.
\<close>

theorem InsertCandlesticks_failures:
  assumes n: "safeTableName U (symbol j) = Return name"
  shows "(Prepare st db name = None \<longrightarrow>
      (\<exists>db1 rows.
         InsertCandlesticks st U db (symbol j) cs =
           Return (None, db1, List.map_filter (\<lambda>c. exec_err st name (row_of c)) cs) \<and>
         db1 name = Some rows \<and>
         (\<forall>c\<in>set cs. exec_err st name (row_of c) = None \<longrightarrow>
            Timestamp c \<in> set (map col_timestamp rows)))) \<and>
    (\<forall>e. Prepare st db name = Some e \<longrightarrow>
       InsertCandlesticks st U db (symbol j) cs = Return (Some e, db, [])) \<and>
    (\<forall>e pts. attempt \<le>s MaxAttempts cfg \<longrightarrow> remote (calls s) j = Inr pts \<longrightarrow>
       Prepare st (database s) name = Some e \<longrightarrow>
       retry_loop remote st U F cfg j attempt s =
         Return (s\<lparr>calls := calls s + 1, failCount := failCount s + 1,
           trace := trace s @ [Fetch j attempt, DbInsertFailed e]\<rparr>)) \<and>
    (\<forall>pts. attempt \<le>s MaxAttempts cfg \<longrightarrow> remote (calls s) j = Inr pts \<longrightarrow>
       Prepare st (database s) name = None \<longrightarrow>
       (\<exists>s'. retry_loop remote st U F cfg j attempt s = Return s' \<and>
          successCount s' = successCount s + 1 \<and> failCount s' = failCount s))"
proof -
  have ok: "\<exists>db1 rows.
         InsertCandlesticks st U db (symbol j) cs =
           Return (None, db1, List.map_filter (\<lambda>c. exec_err st name (row_of c)) cs) \<and>
         db1 name = Some rows \<and>
         (\<forall>c\<in>set cs. exec_err st name (row_of c) = None \<longrightarrow>
            Timestamp c \<in> set (map col_timestamp rows))"
    if p: "Prepare st db name = None" for db cs
  proof -
    obtain db1 rows added where r:
      "InsertCandlesticks st U db (symbol j) cs =
         Return (None, db1, List.map_filter (\<lambda>c. exec_err st name (row_of c)) cs)"
      "db1 name = Some (rows @ added)"
      "\<forall>c\<in>set cs. exec_err st name (row_of c) = None \<longrightarrow>
         Timestamp c \<in> set (map col_timestamp (rows @ added))"
      using InsertCandlesticks_run [OF n p, of cs] by blast
    show ?thesis
      apply (rule exI [of _ db1], rule exI [of _ "rows @ added"])
      using r apply simp
      done
  qed
  have bad: "InsertCandlesticks st U db (symbol j) cs = Return (Some e, db, [])"
    if "Prepare st db name = Some e" for e db cs
    using n that by (simp add: InsertCandlesticks_def)
  have jbad: "retry_loop remote st U F cfg j attempt s =
         Return (s\<lparr>calls := calls s + 1, failCount := failCount s + 1,
           trace := trace s @ [Fetch j attempt, DbInsertFailed e]\<rparr>)"
    if "attempt \<le>s MaxAttempts cfg" "remote (calls s) j = Inr pts"
      "Prepare st (database s) name = Some e" for e pts
  proof -
    have i: "InsertCandlesticks st U (database s) (symbol j) (transform F (symbol j) pts) =
        Return (Some e, database s, [])"
      using bad [OF that(3)] .
    show ?thesis
      using retry_loop_insert_error [where remote = remote and s = s and j = j
          and pts = pts and attempt = attempt and cfg = cfg] that(1) that(2) i
      by simp
  qed
  have jok: "\<exists>s'. retry_loop remote st U F cfg j attempt s = Return s' \<and>
          successCount s' = successCount s + 1 \<and> failCount s' = failCount s"
    if a: "attempt \<le>s MaxAttempts cfg" and f: "remote (calls s) j = Inr pts"
      and p: "Prepare st (database s) name = None" for pts
  proof -
    obtain db1 lg where
      "InsertCandlesticks st U (database s) (symbol j) (transform F (symbol j) pts) =
         Return (None, db1, lg)"
      using ok [OF p, of "transform F (symbol j) pts"] by blast
    then show ?thesis
      using retry_loop_insert_ok [where remote = remote and s = s and j = j
          and pts = pts and attempt = attempt and cfg = cfg] a f
      by simp
  qed
  show ?thesis using ok bad jbad jok by blast
qed

theorem InsertCandlesticks_failures_witness:
  "safeTableName id (symbol ex_job) = Return ''aapl_us'' \<and>
   Prepare reject_second ex_db ''aapl_us'' = None \<and>
   (\<exists>db1. InsertCandlesticks reject_second id ex_db (symbol ex_job) ex_candles =
      Return (None, db1, [''rejected'']))"
proof -
  have h: "safeTableName id (symbol ex_job) = Return ''aapl_us''"
    unfolding ex_job_def by code_simp
  have p: "Prepare reject_second ex_db ''aapl_us'' = None"
    by (simp add: Prepare_def ex_db_def reject_second_def no_faults_def)
  have l: "List.map_filter (\<lambda>c. exec_err reject_second ''aapl_us'' (row_of c)) ex_candles =
      [''rejected'']"
    by (simp add: reject_second_def no_faults_def ex_candles_def row_of_def
        List.map_filter_simps)
  have "Prepare reject_second ex_db ''aapl_us'' = None \<longrightarrow>
      (\<exists>db1 rows.
         InsertCandlesticks reject_second id ex_db (symbol ex_job) ex_candles =
           Return (None, db1,
             List.map_filter (\<lambda>c. exec_err reject_second ''aapl_us'' (row_of c)) ex_candles) \<and>
         db1 ''aapl_us'' = Some rows \<and>
         (\<forall>c\<in>set ex_candles. exec_err reject_second ''aapl_us'' (row_of c) = None \<longrightarrow>
            Timestamp c \<in> set (map col_timestamp rows)))"
    using InsertCandlesticks_failures [OF h, of reject_second ex_db ex_candles]
    by (rule conjunct1)
  then show ?thesis using h p l by auto
qed

section \<open>The transform stage and the task set: the claims\<close>

text \<open>
  Claim C2. The records of the transform stage are, in the order of the points, one
  record for each point that has open, close, high and low, and none for the others.
  Each record carries the symbol of the job, the instant \<open>time.Unix(timestamp, 0)\<close> of
  the point's epoch seconds, the four prices converted to floats, the volume of the
  point as it is, and as turnover the converted turnover of the point, or zero when
  the point has none.
\<close>

theorem transform_filters_and_converts:
  "transform F symb pts =
     map (\<lambda>c. \<lparr>Symbol = symb, Timestamp = Unix (qTimestamp c) 0,
                Open = F (the (qOpen c)), Close = F (the (qClose c)),
                High = F (the (qHigh c)), Low = F (the (qLow c)),
                Volume = qVolume c,
                Turnover = (case qTurnover c of None \<Rightarrow> 0 | Some t \<Rightarrow> F t)\<rparr>)
       (filter (\<lambda>c. qOpen c \<noteq> None \<and> qClose c \<noteq> None \<and> qHigh c \<noteq> None \<and> qLow c \<noteq> None) pts)"
proof -
  have "transform_loop F symb pts [] =
     [] @
     map (\<lambda>c. \<lparr>Symbol = symb, Timestamp = Unix (qTimestamp c) 0,
                Open = F (the (qOpen c)), Close = F (the (qClose c)),
                High = F (the (qHigh c)), Low = F (the (qLow c)),
                Volume = qVolume c,
                Turnover = (case qTurnover c of None \<Rightarrow> 0 | Some t \<Rightarrow> F t)\<rparr>)
       (filter (\<lambda>c. qOpen c \<noteq> None \<and> qClose c \<noteq> None \<and> qHigh c \<noteq> None \<and> qLow c \<noteq> None) pts)"
    by (rule transform_loop_eq)
  then show ?thesis by (simp add: transform_def)
qed

text \<open>
  Two points with all prices, the second without turnover, and between them a point
  without a high: two records, the second with turnover zero.
\<close>

lemma transform_example:
  "transform id ''AAPL.US'' ex_points =
     [\<lparr>Symbol = ''AAPL.US'', Timestamp = Unix 60 0, Open = 1, Close = 2, High = 3, Low = 1,
       Volume = 10, Turnover = 20\<rparr>,
      \<lparr>Symbol = ''AAPL.US'', Timestamp = Unix 180 0, Open = 2, Close = 2, High = 4, Low = 2,
       Volume = 30, Turnover = 0\<rparr>]"
  by (simp add: transform_def ex_points_def)

text \<open>
  Claim C6. For all lists of symbols and dates the queue is built without blocking and
  holds the cross product: its jobs, read as pairs, are the list of all pairs of a
  symbol and a date, in order; there are \<open>|symbols| * |dates|\<close> of them; each pair
  occurs as often as its symbol occurs among the symbols times its date among the
  dates, so exactly once when neither list repeats an entry; and an empty list of
  symbols or of dates gives the empty queue.
\<close>

theorem build_jobs_cross_product:
  "\<exists>jobs. build_jobs symbols dates = Some jobs \<and>
     map (\<lambda>j. (symbol j, date j)) (buffer jobs) = List.product symbols dates \<and>
     length (buffer jobs) = length symbols * length dates \<and>
     (\<forall>s d. count_list (buffer jobs) \<lparr>symbol = s, date = d\<rparr> =
        count_list symbols s * count_list dates d) \<and>
     (distinct symbols \<and> distinct dates \<longrightarrow> distinct (buffer jobs)) \<and>
     (symbols = [] \<or> dates = [] \<longrightarrow> buffer jobs = [])"
proof -
  obtain jobs where b: "build_jobs symbols dates = Some jobs"
    and p: "map (\<lambda>j. (symbol j, date j)) (buffer jobs) = List.product symbols dates"
    and l: "length (buffer jobs) = length symbols * length dates"
    using build_jobs_queue [of symbols dates] by blast
  have c: "\<forall>s d. count_list (buffer jobs) \<lparr>symbol = s, date = d\<rparr> =
        count_list symbols s * count_list dates d"
    using count_list_jobs [of "buffer jobs"] p count_list_product [of symbols dates]
    by simp
  have d: "distinct symbols \<and> distinct dates \<longrightarrow> distinct (buffer jobs)"
    using p distinct_jobs [of "buffer jobs"] by (simp add: distinct_product)
  have e: "symbols = [] \<or> dates = [] \<longrightarrow> buffer jobs = []"
    using l by auto
  show ?thesis
    by (rule exI [of _ jobs]) (intro conjI b p l c d e)
qed

theorem build_jobs_cross_product_witness:
  "distinct ex_symbols \<and> distinct ex_dates \<and>
   (\<exists>jobs. build_jobs ex_symbols ex_dates = Some jobs \<and> length (buffer jobs) = 4 \<and>
      distinct (buffer jobs))"
proof -
  have d: "distinct ex_symbols \<and> distinct ex_dates"
    by (simp add: ex_symbols_def ex_dates_def)
  obtain jobs where j: "build_jobs ex_symbols ex_dates = Some jobs"
    "length (buffer jobs) = length ex_symbols * length ex_dates"
    "distinct ex_symbols \<and> distinct ex_dates \<longrightarrow> distinct (buffer jobs)"
    using build_jobs_cross_product [of ex_symbols ex_dates] by blast
  have "length (buffer jobs) = 4"
    using j(2) by (simp add: ex_symbols_def ex_dates_def)
  then show ?thesis using d j(1) j(3) by blast
qed

section \<open>The worker and the run: the claims\<close>

text \<open>
  Claim C4. The claim does not hold in the program. The worker takes its tick of the
  limiter once per job, before the loop over the attempts, and a retry inside the
  loop only sleeps: a job whose first attempt fails and whose second succeeds takes
  one tick and makes two calls of the quote service, the second without a permit.
\<close>

theorem retry_without_admission:
  "process_job remote_fail_once no_faults id id retryCfg ex_job (init ex_db) =
     Return \<lparr>database = ex_db, calls = 2, currentTask = 1, successCount = 1, failCount = 0,
       trace = [Admit, Progress 1 ex_job, Fetch ex_job 1, Retry 1 ''timeout'',
         Sleep 500000000, Fetch ex_job 2, Done 0]\<rparr> \<and>
   count_list [Admit, Progress 1 ex_job, Fetch ex_job 1, Retry 1 ''timeout'',
         Sleep 500000000, Fetch ex_job 2, Done 0] Admit = 1 \<and>
   fetches [Admit, Progress 1 ex_job, Fetch ex_job 1, Retry 1 ''timeout'',
         Sleep 500000000, Fetch ex_job 2, Done 0] = 2"
  using run_fail_once by (simp add: fetches_def)

text \<open>
  The same holds of every job that returns: what it adds to the trace is one tick of
  the limiter, the progress line, the first call, and then events among which there
  is no further tick, while its calls are between one and \<open>MaxAttempts\<close>, each call
  after the first following one sleep of the backoff.
\<close>

lemma limiter_read_once_per_job:
  assumes "1 \<le>s MaxAttempts cfg" and "process_job remote st U F cfg j s = Return s'"
  shows "\<exists>added. trace s' =
       trace s @ Admit # Progress (currentTask s + 1) j # Fetch j 1 # added \<and>
     Admit \<notin> set added \<and>
     Suc (fetches added) = calls s' - calls s \<and>
     int (Suc (fetches added)) \<le> sint (MaxAttempts cfg) \<and>
     length (sleeps added) = fetches added"
proof -
  obtain added where a:
    "trace s' = trace s @ Admit # Progress (currentTask s + 1) j # Fetch j 1 # added"
    "Admit \<notin> set added" "Suc (fetches added) = calls s' - calls s"
    "int (Suc (fetches added)) \<le> sint (MaxAttempts cfg)"
    "sleeps added = map (\<lambda>k. delay cfg (1 + of_nat k)) [0..<fetches added]"
    using process_job_returns [OF assms] by blast
  have l: "length (sleeps added) = fetches added" using a(5) by simp
  show ?thesis
    by (rule exI [of _ added]) (intro conjI a(1) a(2) a(3) a(4) l)
qed

lemma limiter_read_once_per_job_example:
  "(1 :: int64) \<le>s MaxAttempts retryCfg \<and>
   (\<exists>s' added.
      process_job remote_fail_once no_faults id id retryCfg ex_job (init ex_db) = Return s' \<and>
      trace s' = trace (init ex_db) @
        Admit # Progress (currentTask (init ex_db) + 1) ex_job # Fetch ex_job 1 # added \<and>
      Admit \<notin> set added \<and> Suc (fetches added) = calls s' - calls (init ex_db))"
proof -
  obtain s' where r:
    "process_job remote_fail_once no_faults id id retryCfg ex_job (init ex_db) = Return s'"
    using run_fail_once by blast
  show ?thesis
    using one_le_MaxAttempts r limiter_read_once_per_job [OF one_le_MaxAttempts r] by blast
qed

text \<open>
  Claim C5. With the retry policy of the program (3 attempts, 500 ms, 2000 ms), the
  delay after the failed attempt \<open>a\<close>, for \<open>1 \<le> a < MaxAttempts\<close>, is
  \<open>min (500 * 2 ^ (a - 1)) 2000\<close> milliseconds; the delays do not decrease with \<open>a\<close> and
  never exceed \<open>MaxDelayMS\<close>; and the sleeps of any one job, whatever the state the
  job starts in, are the first of the list 500 ms, 1000 ms, one for each call after
  the first: the sequence starts again from \<open>BaseDelayMS\<close> in every job.
\<close>

theorem backoff_schedule:
  "(\<forall>a. 1 \<le>s a \<and> a <s MaxAttempts retryCfg \<longrightarrow>
      (\<exists>base. backoff_base retryCfg a = Return base \<and>
         sint base = min (500 * 2 ^ nat (sint a - 1)) 2000 \<and>
         delay retryCfg a = base * Millisecond)) \<and>
   (\<forall>a b. 1 \<le>s a \<and> a \<le>s b \<and> b <s MaxAttempts retryCfg \<longrightarrow>
      delay retryCfg a \<le>s delay retryCfg b \<and>
      delay retryCfg b \<le>s MaxDelayMS retryCfg * Millisecond) \<and>
   BaseDelayMS retryCfg = 500 \<and> MaxDelayMS retryCfg = 2000 \<and>
   (\<forall>s'. process_job remote st U F retryCfg j s = Return s' \<longrightarrow>
      (\<exists>added. trace s' = trace s @ added \<and>
         sleeps added = take (fetches added - 1) [500 * Millisecond, 1000 * Millisecond]))"
proof -
  have c: "BaseDelayMS retryCfg = 500" "MaxDelayMS retryCfg = 2000"
    by (simp_all add: retryCfg_def)
  have v: "\<exists>base. backoff_base retryCfg a = Return base \<and>
         sint base = min (500 * 2 ^ nat (sint a - 1)) 2000 \<and>
         delay retryCfg a = base * Millisecond"
    if "1 \<le>s a \<and> a <s MaxAttempts retryCfg" for a
  proof -
    have "a = 1 \<or> a = 2"
      using that attempt_1_or_2 [of a] by (simp add: MaxAttempts_retryCfg)
    then show ?thesis
      by (auto simp: backoff_base_1 backoff_base_2 delay_def)
  qed
  have m: "delay retryCfg a \<le>s delay retryCfg b \<and>
      delay retryCfg b \<le>s MaxDelayMS retryCfg * Millisecond"
    if "1 \<le>s a \<and> a \<le>s b \<and> b <s MaxAttempts retryCfg" for a b
  proof -
    have b: "b = 1 \<or> b = 2"
      using that attempt_1_or_2 [of b] by (auto simp: MaxAttempts_retryCfg word_sle_eq)
    have "a <s 3"
      using that by (auto simp: MaxAttempts_retryCfg word_sle_eq word_sless_alt)
    then have a: "a = 1 \<or> a = 2"
      using that attempt_1_or_2 [of a] by simp
    have "\<not> (a = 2 \<and> b = 1)" using that by (auto simp: word_sle_eq)
    then show ?thesis
      using a b by (auto simp: delay_1 delay_2 c Millisecond_def word_sle_eq)
  qed
  have t: "\<exists>added. trace s' = trace s @ added \<and>
         sleeps added = take (fetches added - 1) [500 * Millisecond, 1000 * Millisecond]"
    if run: "process_job remote st U F retryCfg j s = Return s'" for s'
  proof -
    obtain rest where a:
      "trace s' = trace s @ Admit # Progress (currentTask s + 1) j # Fetch j 1 # rest"
      "int (Suc (fetches rest)) \<le> sint (MaxAttempts retryCfg)"
      "sleeps rest = map (\<lambda>k. delay retryCfg (1 + of_nat k)) [0..<fetches rest]"
      using process_job_returns [OF one_le_MaxAttempts run] by blast
    let ?added = "Admit # Progress (currentTask s + 1) j # Fetch j 1 # rest"
    have f: "fetches ?added = Suc (fetches rest)" by (simp add: fetches_def)
    have "fetches rest \<le> 2" using a(2) by (simp add: MaxAttempts_retryCfg)
    then consider "fetches rest = 0" | "fetches rest = 1" | "fetches rest = 2" by arith
    then have "sleeps rest = take (fetches rest) [500 * Millisecond, 1000 * Millisecond]"
    proof cases
      case 1
      then show ?thesis using a(3) by simp
    next
      case 2
      then show ?thesis using a(3) by (simp add: delay_1)
    next
      case 3
      have "[0..<2] = [0, Suc 0]" by (simp add: upt_rec)
      then show ?thesis using 3 a(3) by (simp add: delay_1 delay_2)
    qed
    then have sl: "sleeps ?added =
        take (fetches ?added - 1) [500 * Millisecond, 1000 * Millisecond]"
      using f by simp
    have tr: "trace s' = trace s @ ?added" using a(1) by simp
    show ?thesis
      by (rule exI [of _ ?added]) (intro conjI tr sl)
  qed
  show ?thesis using v m t c by blast
qed

theorem backoff_schedule_witness:
  "(1 :: int64) \<le>s 2 \<and> (2 :: int64) <s MaxAttempts retryCfg \<and>
   backoff_base retryCfg 2 = Return 1000 \<and> delay retryCfg 2 = 1000000000"
proof -
  have h: "(1 :: int64) \<le>s 2 \<and> (2 :: int64) <s MaxAttempts retryCfg"
    by (simp add: retryCfg_def word_sle_eq word_sless_alt)
  have "\<forall>a. 1 \<le>s a \<and> a <s MaxAttempts retryCfg \<longrightarrow>
      (\<exists>base. backoff_base retryCfg a = Return base \<and>
         sint base = min (500 * 2 ^ nat (sint a - 1)) 2000 \<and>
         delay retryCfg a = base * Millisecond)"
    using backoff_schedule [of remote_down no_faults id id ex_job "init ex_db"]
    by (rule conjunct1)
  then obtain base where b: "backoff_base retryCfg 2 = Return base"
    "sint base = min (500 * 2 ^ nat (sint (2 :: int64) - 1)) 2000"
    "delay retryCfg 2 = base * Millisecond"
    using h by blast
  have "sint base = 1000" using b(2) by simp
  then have "word_of_int (sint base) = (word_of_int 1000 :: int64)" by simp
  then have "base = 1000" by simp
  then show ?thesis using h b by (simp add: Millisecond_def)
qed

text \<open>
  Claim C7. A job whose three attempts all fail ends as failed: the failure counter
  goes up by one, the success counter and the database stay as they were, and the
  job returns to the worker after its third call. Every job that returns adds one to
  exactly one of the two counters. A worker runs all the jobs it is given, one after
  the other, and a run whose symbols all have a table name ends with the two counters
  adding up to the number of jobs.
\<close>

theorem every_job_counted_once:
  "((\<forall>k<3. \<exists>e. remote (calls s + k) j = Inl e) \<longrightarrow>
      (\<exists>s'. process_job remote st U F retryCfg j s = Return s' \<and>
         failCount s' = failCount s + 1 \<and> successCount s' = successCount s \<and>
         database s' = database s \<and> calls s' = calls s + 3)) \<and>
   (\<forall>s'. process_job remote st U F retryCfg j s = Return s' \<longrightarrow>
      (successCount s' = successCount s + 1 \<and> failCount s' = failCount s \<or>
       successCount s' = successCount s \<and> failCount s' = failCount s + 1)) \<and>
   ((\<forall>j\<in>set js. CHR ''.'' \<in> set (symbol j)) \<longrightarrow>
      (\<exists>s'. worker remote st U F retryCfg js s = Return s' \<and>
         successCount s' + failCount s' =
           successCount s + failCount s + of_nat (length js))) \<and>
   ((\<forall>symb\<in>set symbols. CHR ''.'' \<in> set symb) \<longrightarrow>
      (\<exists>s'. main remote st U F symbols dates db0 = Return s' \<and>
         successCount s' + failCount s' = of_nat (length symbols * length dates)))"
proof -
  have a: "(\<forall>k<3. \<exists>e. remote (calls s + k) j = Inl e) \<longrightarrow>
      (\<exists>s'. process_job remote st U F retryCfg j s = Return s' \<and>
         failCount s' = failCount s + 1 \<and> successCount s' = successCount s \<and>
         database s' = database s \<and> calls s' = calls s + 3)"
    using process_job_all_fail [of remote s j st U F] by blast
  have b: "\<forall>s'. process_job remote st U F retryCfg j s = Return s' \<longrightarrow>
      (successCount s' = successCount s + 1 \<and> failCount s' = failCount s \<or>
       successCount s' = successCount s \<and> failCount s' = failCount s + 1)"
  proof (intro allI impI)
    fix s'
    assume "process_job remote st U F retryCfg j s = Return s'"
    from process_job_returns [OF one_le_MaxAttempts this]
    show "successCount s' = successCount s + 1 \<and> failCount s' = failCount s \<or>
       successCount s' = successCount s \<and> failCount s' = failCount s + 1"
      by blast
  qed
  have c: "(\<forall>j\<in>set js. CHR ''.'' \<in> set (symbol j)) \<longrightarrow>
      (\<exists>s'. worker remote st U F retryCfg js s = Return s' \<and>
         successCount s' + failCount s' =
           successCount s + failCount s + of_nat (length js))"
  proof
    assume d: "\<forall>j\<in>set js. CHR ''.'' \<in> set (symbol j)"
    from worker_counts [OF one_le_MaxAttempts d, of remote st U F s]
    show "\<exists>s'. worker remote st U F retryCfg js s = Return s' \<and>
         successCount s' + failCount s' =
           successCount s + failCount s + of_nat (length js)"
      by blast
  qed
  have d: "(\<forall>symb\<in>set symbols. CHR ''.'' \<in> set symb) \<longrightarrow>
      (\<exists>s'. main remote st U F symbols dates db0 = Return s' \<and>
         successCount s' + failCount s' = of_nat (length symbols * length dates))"
  proof
    assume d: "\<forall>symb\<in>set symbols. CHR ''.'' \<in> set symb"
    from main_counts [OF d, of remote st U F dates db0]
    show "\<exists>s'. main remote st U F symbols dates db0 = Return s' \<and>
         successCount s' + failCount s' = of_nat (length symbols * length dates)"
      by blast
  qed
  show ?thesis by (intro conjI a b c d)
qed

theorem every_job_counted_once_witness:
  "remote_down 0 ex_job = Inl ''timeout'' \<and>
   (\<exists>s'. process_job remote_down no_faults id id retryCfg ex_job (init ex_db) = Return s' \<and>
      failCount s' = 1 \<and> successCount s' = 0 \<and> calls s' = 3) \<and>
   (\<exists>s'. main remote_down no_faults id id ex_symbols ex_dates ex_db = Return s' \<and>
      successCount s' + failCount s' = 4)"
proof -
  have h: "\<forall>k<3. \<exists>e. remote_down (calls (init ex_db) + k) ex_job = Inl e"
    by (simp add: remote_down_def)
  have g: "\<forall>symb\<in>set ex_symbols. CHR ''.'' \<in> set symb"
    by (simp add: ex_symbols_def)
  note t = every_job_counted_once [of remote_down "init ex_db" ex_job no_faults id id "[]"
      ex_symbols ex_dates ex_db]
  have "\<exists>s'. process_job remote_down no_faults id id retryCfg ex_job (init ex_db) = Return s' \<and>
         failCount s' = failCount (init ex_db) + 1 \<and>
         successCount s' = successCount (init ex_db) \<and>
         database s' = database (init ex_db) \<and> calls s' = calls (init ex_db) + 3"
    using t h by blast
  then have p: "\<exists>s'. process_job remote_down no_faults id id retryCfg ex_job (init ex_db) =
        Return s' \<and> failCount s' = 1 \<and> successCount s' = 0 \<and> calls s' = 3"
    by (auto simp: init_def)
  have "\<exists>s'. main remote_down no_faults id id ex_symbols ex_dates ex_db = Return s' \<and>
         successCount s' + failCount s' = of_nat (length ex_symbols * length ex_dates)"
    using t g by blast
  then have m: "\<exists>s'. main remote_down no_faults id id ex_symbols ex_dates ex_db = Return s' \<and>
      successCount s' + failCount s' = 4"
    by (auto simp: ex_symbols_def ex_dates_def)
  have r: "remote_down 0 ex_job = Inl ''timeout''"
    by (simp add: remote_down_def)
  show ?thesis by (intro conjI r p m)
qed

text \<open>
  Claim C9. The claim does not hold in the concurrent program. With one symbol whose
  table cannot be created and one date, the failure is printed and the job of that
  symbol still runs: it takes a tick of the limiter, calls the quote service, and
  fails when the insert statement is prepared. The sequential program, on the same
  input, prints the failure and runs no job.
\<close>

theorem jobs_run_after_create_failure:
  "main remote_empty create_fails id id [''AAPL.US''] [Unix 1760486400 0] no_tables =
     Return \<lparr>database = no_tables, calls = 1, currentTask = 1, successCount = 0,
       failCount = 1,
       trace = [CreateFailed ''permission denied'', Admit, Progress 1 ex_job, Fetch ex_job 1,
         DbInsertFailed ''relation does not exist'']\<rparr> \<and>
   main_seq remote_empty create_fails id id [''AAPL.US''] [Unix 1760486400 0] no_tables =
     Return \<lparr>database = no_tables, calls = 0, currentTask = 0, successCount = 0,
       failCount = 0, trace = [CreateFailed ''permission denied'']\<rparr>"
  by (simp add: main_def main_seq_def init_def EnsureTable_def EnsureTable_seq_def
      name_AAPL name_seq_AAPL create_fails_def no_faults_def build_jobs_def make_chan_def
      send_def process_job_def retry_loop.simps remote_empty_def retryCfg_def Let_def
      word_sle_eq transform_def InsertCandlesticks_def Prepare_def no_tables_def ex_job_def)

end
